theory Spec2Isabelle
  imports Main "HOL-Library.Word" "HOL-Library.AList" "HOL-Library.Sublist"
begin

section \<open>JavaScript strings\<close>

text \<open>
  A JavaScript string is a sequence of UTF-16 code units: \<^verbatim>\<open>s.length\<close> counts code
  units, \<^verbatim>\<open>s[0]\<close> and \<^verbatim>\<open>s.charCodeAt(0)\<close> read one, and a regular expression
  without the \<^verbatim>\<open>u\<close> flag matches code unit by code unit. A string literal of the
  source is written \<open>utf16 ''...''\<close> (the literals of \<^verbatim>\<open>lib/bot.js\<close> are ASCII).
\<close>

type_synonym jschar = "16 word"
type_synonym jsstring = "jschar list"

definition utf16 :: "string \<Rightarrow> jsstring" where
  "utf16 s = map (\<lambda>c. of_nat (of_char c)) s"

text \<open>The character classes \<^verbatim>\<open>\s\<close>, \<^verbatim>\<open>\d\<close> and \<^verbatim>\<open>\w\<close> of a regular expression.\<close>

definition isWhiteSpace :: "jschar \<Rightarrow> bool" where
  "isWhiteSpace c =
     (c \<in> set [0x09, 0x0A, 0x0B, 0x0C, 0x0D, 0x20, 0xA0, 0x1680, 0x2028, 0x2029,
                0x202F, 0x205F, 0x3000, 0xFEFF]
      \<or> (0x2000 \<le> c \<and> c \<le> 0x200A))"

definition isDigit :: "jschar \<Rightarrow> bool" where
  "isDigit c = (0x30 \<le> c \<and> c \<le> 0x39)"

definition isWordChar :: "jschar \<Rightarrow> bool" where
  "isWordChar c =
     ((0x61 \<le> c \<and> c \<le> 0x7A) \<or> (0x41 \<le> c \<and> c \<le> 0x5A) \<or> isDigit c \<or> c = 0x5F)"

text \<open>
  \<^verbatim>\<open>String.prototype.toLowerCase\<close> is a built-in of the runtime. It follows the case tables of
  the Unicode version the runtime is built with, which are no part of the sources, so the
  function is a parameter of the model: \<open>lc\<close> below, and every theorem holds for each
  \<open>lc\<close>. The one property of it that is used is that the lowercase form of a string is empty
  for the empty string only (every character has a lowercase form of at least one code
  unit).
\<close>

typedef lowercasing = "{f :: jsstring \<Rightarrow> jsstring. \<forall>s. (f s = []) = (s = [])}"
  by (rule exI [of _ "\<lambda>s. s"]) simp

setup_lifting type_definition_lowercasing

definition toLowerCase :: "lowercasing \<Rightarrow> jsstring \<Rightarrow> jsstring" where
  "toLowerCase lc s = Rep_lowercasing lc s"

text \<open>
  The lowercasing the examples are computed with: the letters \<^verbatim>\<open>A\<close> to \<^verbatim>\<open>Z\<close> go to \<^verbatim>\<open>a\<close> to
  \<^verbatim>\<open>z\<close>, every other code unit is kept. On a string of ASCII characters this is what
  \<^verbatim>\<open>toLowerCase\<close> returns in every version of the tables, and the strings of the examples are
  ASCII.
\<close>

lift_definition basic_latin :: lowercasing
  is "map (\<lambda>c. if 0x41 \<le> c \<and> c \<le> 0x5A then c + 0x20 else c)"
  by simp

text \<open>\<^verbatim>\<open>s.split(' ')[0]\<close>: the part of \<open>s\<close> before its first space, all of \<open>s\<close> when it has none.\<close>

definition split_space_0 :: "jsstring \<Rightarrow> jsstring" where
  "split_space_0 s = takeWhile (\<lambda>c. c \<noteq> 0x20) s"


section \<open>Objects used as dictionaries\<close>

text \<open>
  A plain object whose own properties are strings is the list of these properties in
  enumeration order, each key once (\<open>js_object\<close>). The objects of the bot are made by \<^verbatim>\<open>{}\<close>,
  so their prototype is \<^verbatim>\<open>Object.prototype\<close>, and they inherit its properties.
\<close>

type_synonym object = "(jsstring \<times> jsstring) list"

definition js_object :: "object \<Rightarrow> bool" where
  "js_object obj = distinct (map fst obj)"

text \<open>The names of the properties of \<^verbatim>\<open>Object.prototype\<close>. Eleven of them are functions, and
  \<^verbatim>\<open>__proto__\<close> is an accessor that reads as \<^verbatim>\<open>Object.prototype\<close> itself on these objects.\<close>

definition Object_prototype :: "jsstring list" where
  "Object_prototype =
     map utf16 [''constructor'', ''__defineGetter__'', ''__defineSetter__'', ''hasOwnProperty'',
       ''__lookupGetter__'', ''__lookupSetter__'', ''isPrototypeOf'', ''propertyIsEnumerable'',
       ''toString'', ''valueOf'', ''__proto__'', ''toLocaleString'']"

text \<open>
  What \<^verbatim>\<open>obj[k]\<close> reads: the own property \<open>k\<close>, a string; without one, the property \<open>k\<close> of
  \<^verbatim>\<open>Object.prototype\<close> (\<open>Inherited\<close>: a function or an object, so a true value that is no
  string and has no method \<^verbatim>\<open>slice\<close>); without that, \<^verbatim>\<open>undefined\<close>.
\<close>

datatype property = Undefined | Str jsstring | Inherited

definition get_property :: "object \<Rightarrow> jsstring \<Rightarrow> property" where
  "get_property obj k =
     (case map_of obj k of
        Some v \<Rightarrow> Str v
      | None \<Rightarrow> if k \<in> set Object_prototype then Inherited else Undefined)"

text \<open>
  \<^verbatim>\<open>obj[k] = v\<close> with a string \<open>v\<close>: the value is replaced where the object has the key, and
  the property is added last otherwise (\<open>AList.update\<close>). The key \<^verbatim>\<open>__proto__\<close> is the
  exception: on an object without an own property of that name the assignment calls the
  setter of \<^verbatim>\<open>Object.prototype\<close>, which does nothing for a value that is no object, and the
  object stays as it is.
\<close>

definition set_property :: "object \<Rightarrow> jsstring \<Rightarrow> jsstring \<Rightarrow> object" where
  "set_property obj k v =
     (if k = utf16 ''__proto__'' \<and> map_of obj k = None then obj else AList.update k v obj)"

text \<open>lodash: \<^verbatim>\<open>_.values(obj)\<close>, and \<^verbatim>\<open>_.invert(obj)\<close>, which runs \<^verbatim>\<open>result[value] = key\<close> over the
  own properties in order, so that of two keys with one value the later stays.\<close>

definition lodash_values :: "object \<Rightarrow> jsstring list" where
  "lodash_values obj = map snd obj"

definition invert :: "object \<Rightarrow> object" where
  "invert obj = fold (\<lambda>(key, val) result. set_property result val key) obj []"


section \<open>Errors and outbound calls\<close>

datatype error = ConfigurationError | TypeError

text \<open>
  The calls the bot makes on its two clients: \<^verbatim>\<open>ircClient.say(channel, text)\<close>,
  \<^verbatim>\<open>ircClient.join(channel)\<close> and \<^verbatim>\<open>discordChannel.sendMessage(text)\<close> (recorded with the
  id of the channel object). A handler returns the calls it made, in order, and the
  exception that ended it, if one did. Calls of the logger are left out.
\<close>

datatype call =
    Say jsstring jsstring
  | Join jsstring
  | SendMessage jsstring jsstring

type_synonym outcome = "call list \<times> error option"


section \<open>The constructor\<close>

text \<open>The configuration object; an absent field is \<open>None\<close>.\<close>

record options =
  opt_server :: "jsstring option"
  opt_nickname :: "jsstring option"
  opt_channelMapping :: "object option"
  opt_discordToken :: "jsstring option"
  opt_commandCharacters :: "jsstring list option"
  opt_ircNickColor :: "bool option"
  opt_autoSendCommands :: "jsstring list list option"

record bot =
  server :: jsstring
  bot_nickname :: jsstring
  discordToken :: jsstring
  commandCharacters :: "jsstring list"
  ircNickColor :: bool
  channels :: "jsstring list"
  channelMapping :: object
  invertedMapping :: object
  autoSendCommands :: "jsstring list list"

text \<open>The check of a required string field: \<^verbatim>\<open>!options[field]\<close> holds for an absent and
  for an empty one, and the constructor throws.\<close>

definition required :: "jsstring option \<Rightarrow> error + jsstring" where
  "required v =
     (case v of None \<Rightarrow> Inl ConfigurationError
      | Some s \<Rightarrow> if s = [] then Inl ConfigurationError else Inr s)"

text \<open>
  Modelled from the spec: \<^verbatim>\<open>validateChannelMapping\<close> of \<^verbatim>\<open>lib/validators.js\<close>, which is not
  among the sources. The spec (4.1): the construction fails with ConfigurationError if the
  raw mapping has fewer than one channel pair, or if any entry has an empty Discord key or
  an empty IRC name after the split.
\<close>

definition validateChannelMapping :: "object \<Rightarrow> error + unit" where
  "validateChannelMapping mapping =
     (if mapping = [] \<or> list_ex (\<lambda>(discordChan, ircChan). discordChan = [] \<or> split_space_0 ircChan = []) mapping
      then Inl ConfigurationError else Inr ())"

text \<open>The loop of the constructor over the raw mapping (\<^verbatim>\<open>_.forOwn\<close>): the channel password
  is cut off and the IRC channel name lowercased.\<close>

definition stripMapping :: "lowercasing \<Rightarrow> object \<Rightarrow> object" where
  "stripMapping lc raw =
     fold (\<lambda>(discordChan, ircChan) m. set_property m discordChan (toLowerCase lc (split_space_0 ircChan))) raw []"

definition Bot :: "lowercasing \<Rightarrow> options \<Rightarrow> error + bot" where
  "Bot lc opts =
     (case required (opt_server opts) of Inl e \<Rightarrow> Inl e | Inr srv \<Rightarrow>
     (case required (opt_nickname opts) of Inl e \<Rightarrow> Inl e | Inr nick \<Rightarrow>
     (case opt_channelMapping opts of None \<Rightarrow> Inl ConfigurationError | Some raw \<Rightarrow>
     (case required (opt_discordToken opts) of Inl e \<Rightarrow> Inl e | Inr token \<Rightarrow>
     (case validateChannelMapping raw of Inl e \<Rightarrow> Inl e | Inr _ \<Rightarrow>
        Inr \<lparr> server = srv,
              bot_nickname = nick,
              discordToken = token,
              commandCharacters = (case opt_commandCharacters opts of None \<Rightarrow> [] | Some cs \<Rightarrow> cs),
              ircNickColor = (opt_ircNickColor opts \<noteq> Some False),
              channels = lodash_values raw,
              channelMapping = stripMapping lc raw,
              invertedMapping = invert (stripMapping lc raw),
              autoSendCommands = (case opt_autoSendCommands opts of None \<Rightarrow> [] | Some cs \<Rightarrow> cs) \<rparr>)))))"


section \<open>The Discord side\<close>

text \<open>
  What the bot reads of discord.js: a user, a guild member (the user with the nickname it
  has in the guild, \<open>None\<close> for \<^verbatim>\<open>null\<close>), a guild, a channel, the client with its own
  user and its caches, and a message. A collection is the list of its values in iteration
  order; \<^verbatim>\<open>collection.find(prop, value)\<close> returns the first value whose property equals
  \<open>value\<close> (\<open>List.find\<close>), or \<^verbatim>\<open>null\<close>.
\<close>

record user =
  user_id :: jsstring
  username :: jsstring

record member =
  member_user :: user
  nickname :: "jsstring option"

record guild =
  members :: "member list"

datatype channel_type = DM | GroupDM | TextChannel | VoiceChannel

record channel =
  channel_id :: jsstring
  channel_name :: jsstring
  channel_type :: channel_type
  channel_guild :: guild

record client =
  client_user :: user
  client_channels :: "channel list"
  client_users :: "user list"

record message =
  author :: user
  message_channel :: channel
  message_guild :: guild
  content :: jsstring
  mentions_users :: "user list"
  attachments :: "jsstring list"

text \<open>
  \<open>attachments\<close> holds the \<^verbatim>\<open>url\<close> of each attachment in the order of the collection; a
  message without the collection has the empty list (\<^verbatim>\<open>sendToIRC\<close> sends nothing for either).

  The string a member and a user turn into when \<^verbatim>\<open>String.prototype.replace\<close> takes them as the
  replacement (discord.js: \<^verbatim>\<open>GuildMember.toString\<close>, \<^verbatim>\<open>User.toString\<close>): the mention.
\<close>

definition User_toString :: "user \<Rightarrow> jsstring" where
  "User_toString u = utf16 ''<@'' @ user_id u @ utf16 ''>''"

definition truthy :: "jsstring option \<Rightarrow> bool" where
  "truthy v = (case v of None \<Rightarrow> False | Some s \<Rightarrow> s \<noteq> [])"

definition GuildMember_toString :: "member \<Rightarrow> jsstring" where
  "GuildMember_toString m =
     utf16 ''<@'' @ (if truthy (nickname m) then utf16 ''!'' else []) @ user_id (member_user m) @ utf16 ''>''"

definition getDiscordNicknameOnServer :: "user \<Rightarrow> guild \<Rightarrow> jsstring" where
  "getDiscordNicknameOnServer usr g =
     (case find (\<lambda>m. user_id (member_user m) = user_id usr) (members g) of
        Some userDetails \<Rightarrow>
          (case nickname userDetails of
             None \<Rightarrow> username usr
           | Some n \<Rightarrow> if n = [] then username usr else n)
      | None \<Rightarrow> username usr)"


section \<open>Replacing in strings\<close>

subsection \<open>A string as the pattern\<close>

text \<open>
  \<^verbatim>\<open>s.replace(pattern, replacement)\<close> with two strings replaces the first occurrence of the
  pattern only, and reads \<^verbatim>\<open>$$\<close>, \<^verbatim>\<open>$&\<close>, \<^verbatim>\<open>$`\<close> and \<^verbatim>\<open>$'\<close> in the replacement as a dollar
  sign, the match, the text before it and the text after it (a string pattern has no
  groups, so \<^verbatim>\<open>$1\<close> stands for itself).
\<close>

fun indexOf :: "jsstring \<Rightarrow> jsstring \<Rightarrow> nat option" where
  "indexOf pat [] = (if pat = [] then Some 0 else None)"
| "indexOf pat (c # cs) =
     (if prefix pat (c # cs) then Some 0 else map_option Suc (indexOf pat cs))"

fun getSubstitution :: "jsstring \<Rightarrow> jsstring \<Rightarrow> jsstring \<Rightarrow> jsstring \<Rightarrow> jsstring" where
  "getSubstitution matched head rest (c # d # r) =
     (if c = 0x24 \<and> d = 0x24 then 0x24 # getSubstitution matched head rest r
      else if c = 0x24 \<and> d = 0x26 then matched @ getSubstitution matched head rest r
      else if c = 0x24 \<and> d = 0x60 then head @ getSubstitution matched head rest r
      else if c = 0x24 \<and> d = 0x27 then rest @ getSubstitution matched head rest r
      else c # getSubstitution matched head rest (d # r))"
| "getSubstitution matched head rest r = r"

definition replace_string :: "jsstring \<Rightarrow> jsstring \<Rightarrow> jsstring \<Rightarrow> jsstring" where
  "replace_string s pat replacement =
     (case indexOf pat s of
        None \<Rightarrow> s
      | Some i \<Rightarrow>
          (let head = take i s; rest = drop (i + length pat) s
           in head @ getSubstitution pat head rest replacement @ rest))"

subsection \<open>A global regular expression as the pattern\<close>

text \<open>
  \<^verbatim>\<open>s.replace(regex, f)\<close> with a regular expression that has the \<^verbatim>\<open>g\<close> flag replaces every
  match, found from left to right, each search starting where the last match ended, by
  what \<open>f\<close> returns for the match and its group; \<open>f\<close> may throw, which ends the call. A
  regular expression is given by what it matches at the start of a text: the length of the
  match and the text of its group (the expressions of the bot have one group or none, for
  which the text is empty). None of them matches the empty string; after an empty match
  the search would go on one code unit further.
\<close>

type_synonym regex = "jsstring \<Rightarrow> (nat \<times> jsstring) option"

function replace_regex ::
  "regex \<Rightarrow> (jsstring \<Rightarrow> jsstring \<Rightarrow> error + jsstring) \<Rightarrow> jsstring \<Rightarrow> error + jsstring"
where
  "replace_regex re f [] = Inr []"
| "replace_regex re f (c # cs) =
     (case re (c # cs) of
        None \<Rightarrow>
          (case replace_regex re f cs of Inl e \<Rightarrow> Inl e | Inr t \<Rightarrow> Inr (c # t))
      | Some (n, grp) \<Rightarrow>
          (case f (take n (c # cs)) grp of
             Inl e \<Rightarrow> Inl e
           | Inr r \<Rightarrow>
               (if n = 0
                then (case replace_regex re f cs of Inl e \<Rightarrow> Inl e | Inr t \<Rightarrow> Inr (r @ c # t))
                else (case replace_regex re f (drop n (c # cs)) of
                        Inl e \<Rightarrow> Inl e | Inr t \<Rightarrow> Inr (r @ t)))))"
  by pat_completeness auto
termination
  by (relation "measure (\<lambda>(re, f, s). length s)") auto

text \<open>\<^verbatim>\<open>/\n|\r\n|\r/\<close>\<close>

fun re_newline :: regex where
  "re_newline (c # d # r) =
     (if c = 0x0A then Some (1, [])
      else if c = 0x0D \<and> d = 0x0A then Some (2, [])
      else if c = 0x0D then Some (1, [])
      else None)"
| "re_newline [c] = (if c = 0x0A \<or> c = 0x0D then Some (1, []) else None)"
| "re_newline [] = None"

text \<open>\<^verbatim>\<open>/<#(\d+)>/\<close>: the group is the run of digits. The run is taken whole: a shorter one
  is followed by a digit, not by \<^verbatim>\<open>>\<close>.\<close>

definition re_channel :: regex where
  "re_channel s =
     (if prefix (utf16 ''<#'') s
      then (let ds = takeWhile isDigit (drop 2 s); r = dropWhile isDigit (drop 2 s)
            in if ds \<noteq> [] \<and> prefix (utf16 ''>'') r then Some (length ds + 3, ds) else None)
      else None)"

text \<open>\<^verbatim>\<open>/<(:\w+:)\d+>/\<close>: the group is the name between its colons. Both runs are
  taken whole.\<close>

definition re_emote :: regex where
  "re_emote s =
     (if prefix (utf16 ''<:'') s
      then (let w = takeWhile isWordChar (drop 2 s); r = dropWhile isWordChar (drop 2 s)
            in if w \<noteq> [] \<and> prefix (utf16 '':'') r
               then (let ds = takeWhile isDigit (drop 1 r); r' = dropWhile isDigit (drop 1 r)
                     in if ds \<noteq> [] \<and> prefix (utf16 ''>'') r'
                        then Some (length w + length ds + 4, utf16 '':'' @ w @ utf16 '':'')
                        else None)
               else None)
      else None)"

text \<open>
  \<^verbatim>\<open>/@[^\s]+\b/\<close>: after the \<^verbatim>\<open>@\<close>, the run of code units that are not white space is taken
  whole and then given back one unit at a time until the place is a word boundary: of the
  unit before it and the unit after it (none at the end of the text), exactly one is a
  word character. \<open>k\<close> counts the units kept after the \<^verbatim>\<open>@\<close>, at least one.
\<close>

definition wordBoundary :: "jsstring \<Rightarrow> nat \<Rightarrow> bool" where
  "wordBoundary s k =
     ((0 < k \<and> k \<le> length s \<and> isWordChar (s ! (k - 1))) \<noteq> (k < length s \<and> isWordChar (s ! k)))"

definition re_mention :: regex where
  "re_mention s =
     (case s of
        [] \<Rightarrow> None
      | c # r \<Rightarrow>
          if c = 0x40
          then (let run = takeWhile (\<lambda>x. \<not> isWhiteSpace x) r
                in map_option (\<lambda>k. (Suc k, [])) (find (wordBoundary r) (rev [1 ..< Suc (length run)])))
          else None)"


section \<open>From Discord to IRC\<close>

text \<open>The step of the \<^verbatim>\<open>reduce\<close> over the mentioned users, and \<^verbatim>\<open>parseText\<close>. The channel of
  a \<^verbatim>\<open><#id>\<close> is read from the client's channels by its id; reading the name of a
  channel that is not there throws a TypeError.\<close>

definition replaceMention :: "guild \<Rightarrow> jsstring \<Rightarrow> user \<Rightarrow> jsstring" where
  "replaceMention g text mention =
     (let displayName = getDiscordNicknameOnServer mention g;
          t1 = replace_string text (utf16 ''<@'' @ user_id mention @ utf16 ''>'') (utf16 ''@'' @ displayName);
          t2 = replace_string t1 (utf16 ''<@!'' @ user_id mention @ utf16 ''>'') (utf16 ''@'' @ displayName)
      in replace_string t2 (utf16 ''<@&'' @ user_id mention @ utf16 ''>'') (utf16 ''@'' @ displayName))"

definition channelName :: "client \<Rightarrow> jsstring \<Rightarrow> jsstring \<Rightarrow> error + jsstring" where
  "channelName cl matched channelId =
     (case find (\<lambda>ch. channel_id ch = channelId) (client_channels cl) of
        None \<Rightarrow> Inl TypeError
      | Some ch \<Rightarrow> Inr (utf16 ''#'' @ channel_name ch))"

definition parseText :: "client \<Rightarrow> message \<Rightarrow> error + jsstring" where
  "parseText cl msg =
     (let text = foldl (replaceMention (message_guild msg)) (content msg) (mentions_users msg)
      in case replace_regex re_newline (\<lambda>matched grp. Inr (utf16 '' '')) text of
           Inl e \<Rightarrow> Inl e
         | Inr t1 \<Rightarrow>
             (case replace_regex re_channel (channelName cl) t1 of
                Inl e \<Rightarrow> Inl e
              | Inr t2 \<Rightarrow> replace_regex re_emote (\<lambda>matched emoteName. Inr emoteName) t2))"

text \<open>\<^verbatim>\<open>isCommandMessage\<close>: \<^verbatim>\<open>message[0]\<close> is the string of the first code unit, \<^verbatim>\<open>undefined\<close> for
  the empty string, which \<^verbatim>\<open>indexOf\<close> finds in no list of strings.\<close>

definition isCommandMessage :: "bot \<Rightarrow> jsstring \<Rightarrow> bool" where
  "isCommandMessage b text =
     (case text of [] \<Rightarrow> False | c # _ \<Rightarrow> [c] \<in> set (commandCharacters b))"

text \<open>
  The colour of a nickname. \<^verbatim>\<open>charCodeAt(0)\<close> of the empty string is \<^verbatim>\<open>NaN\<close>, and so is the
  index then (\<open>None\<close>); \<^verbatim>\<open>NICK_COLORS[NaN]\<close> is \<^verbatim>\<open>undefined\<close>. \<^verbatim>\<open>irc.colors.wrap\<close> (node-irc) puts
  the code of a colour it knows before the text and the reset code after it, and returns
  the text as it is for any other colour.
\<close>

definition NICK_COLORS :: "string list" where
  "NICK_COLORS = [''light_blue'', ''dark_blue'', ''light_red'', ''dark_red'', ''light_green'',
     ''dark_green'', ''magenta'', ''light_magenta'', ''orange'', ''yellow'', ''cyan'', ''light_cyan'']"

definition colorIndex :: "jsstring \<Rightarrow> nat option" where
  "colorIndex name =
     (case name of [] \<Rightarrow> None | c # _ \<Rightarrow> Some ((unat c + length name) mod length NICK_COLORS))"

definition irc_colors_codes :: "(string \<times> jsstring) list" where
  "irc_colors_codes =
     [(''white'', 0x03 # utf16 ''00''), (''black'', 0x03 # utf16 ''01''),
      (''dark_blue'', 0x03 # utf16 ''02''), (''dark_green'', 0x03 # utf16 ''03''),
      (''light_red'', 0x03 # utf16 ''04''), (''dark_red'', 0x03 # utf16 ''05''),
      (''magenta'', 0x03 # utf16 ''06''), (''orange'', 0x03 # utf16 ''07''),
      (''yellow'', 0x03 # utf16 ''08''), (''light_green'', 0x03 # utf16 ''09''),
      (''cyan'', 0x03 # utf16 ''10''), (''light_cyan'', 0x03 # utf16 ''11''),
      (''light_blue'', 0x03 # utf16 ''12''), (''light_magenta'', 0x03 # utf16 ''13''),
      (''gray'', 0x03 # utf16 ''14''), (''light_gray'', 0x03 # utf16 ''15''),
      (''bold'', [0x02]), (''underline'', [0x1F]), (''reset'', [0x0F])]"

definition irc_colors_wrap :: "string option \<Rightarrow> jsstring \<Rightarrow> jsstring" where
  "irc_colors_wrap color text =
     (case color of
        None \<Rightarrow> text
      | Some name \<Rightarrow>
          (case map_of irc_colors_codes name of
             None \<Rightarrow> text
           | Some code \<Rightarrow> code @ text @ [0x0F]))"

text \<open>\<^verbatim>\<open>NICK_COLORS[colorIndex]\<close>, and the name as \<^verbatim>\<open>sendToIRC\<close> shows it.\<close>

definition nickColor :: "jsstring \<Rightarrow> string option" where
  "nickColor nick = map_option (\<lambda>i. NICK_COLORS ! i) (colorIndex nick)"

definition displayUsername :: "bot \<Rightarrow> jsstring \<Rightarrow> jsstring" where
  "displayUsername b nick = (if ircNickColor b then irc_colors_wrap (nickColor nick) nick else nick)"

text \<open>
  \<^verbatim>\<open>sendToIRC\<close>. The key \<^verbatim>\<open>this.channelMapping\<close> is read at starts with \<^verbatim>\<open>#\<close>, which the name of
  no inherited property does: what is read is the own property of that name, or
  \<^verbatim>\<open>undefined\<close> (\<open>None\<close>).
\<close>

definition sendToIRC :: "bot \<Rightarrow> client \<Rightarrow> message \<Rightarrow> outcome" where
  "sendToIRC b cl msg =
     (if user_id (author msg) = user_id (client_user cl) then ([], None)
      else
        (case map_of (channelMapping b) (utf16 ''#'' @ channel_name (message_channel msg)) of
           None \<Rightarrow> ([], None)
         | Some ircChannel \<Rightarrow>
             if ircChannel = [] then ([], None)
             else
               (let nick = getDiscordNicknameOnServer (author msg) (message_guild msg)
                in case parseText cl msg of
                     Inl e \<Rightarrow> ([], Some e)
                   | Inr text \<Rightarrow>
                       if isCommandMessage b text
                       then ([Say ircChannel (utf16 ''Command sent from Discord by '' @ nick @ utf16 '':''),
                              Say ircChannel text], None)
                       else
                         ((if text \<noteq> []
                           then [Say ircChannel (utf16 ''<'' @ displayUsername b nick @ utf16 ''> '' @ text)]
                           else [])
                          @ map (\<lambda>url. Say ircChannel (utf16 ''<'' @ displayUsername b nick @ utf16 ''> '' @ url))
                              (attachments msg),
                          None))))"


section \<open>From IRC to Discord\<close>

text \<open>The function that \<^verbatim>\<open>sendToDiscord\<close> replaces each match of \<^verbatim>\<open>/@[^\s]+\b/g\<close> by. Reading
  the nickname of a user who is no member of the guild throws a TypeError.\<close>

definition mention :: "client \<Rightarrow> guild \<Rightarrow> jsstring \<Rightarrow> jsstring \<Rightarrow> error + jsstring" where
  "mention cl g matched grp =
     (let search = drop 1 matched in
      case find (\<lambda>m. nickname m = Some search) (members g) of
        Some nickUser \<Rightarrow> Inr (GuildMember_toString nickUser)
      | None \<Rightarrow>
          (case find (\<lambda>u. username u = search) (client_users cl) of
             None \<Rightarrow> Inr matched
           | Some usr \<Rightarrow>
               (case find (\<lambda>m. user_id (member_user m) = user_id usr) (members g) of
                  None \<Rightarrow> Inl TypeError
                | Some m \<Rightarrow>
                    if \<not> truthy (nickname m) \<or> nickname m = Some search
                    then Inr (User_toString usr)
                    else Inr matched)))"

definition withMentions :: "client \<Rightarrow> guild \<Rightarrow> jsstring \<Rightarrow> error + jsstring" where
  "withMentions cl g text = replace_regex re_mention (mention cl g) text"

text \<open>
  \<^verbatim>\<open>sendToDiscord\<close>. The name of the Discord channel is read with
  \<^verbatim>\<open>this.invertedMapping[channel.toLowerCase()]\<close>; when the lowercased target is the name of an
  inherited property and no IRC name of the mapping, what is read is true and has no method
  \<^verbatim>\<open>slice\<close>, and \<^verbatim>\<open>discordChannelName.slice(1)\<close> throws a TypeError.
\<close>

definition sendToDiscord :: "lowercasing \<Rightarrow> bot \<Rightarrow> client \<Rightarrow> jsstring \<Rightarrow> jsstring \<Rightarrow> jsstring \<Rightarrow> outcome" where
  "sendToDiscord lc b cl author_nick channel text =
     (case get_property (invertedMapping b) (toLowerCase lc channel) of
        Undefined \<Rightarrow> ([], None)
      | Inherited \<Rightarrow> ([], Some TypeError)
      | Str discordChannelName \<Rightarrow>
          if discordChannelName = [] then ([], None)
          else
            (case find (\<lambda>c. channel_name c = drop 1 discordChannelName)
                    (filter (\<lambda>c. channel_type c = TextChannel) (client_channels cl)) of
               None \<Rightarrow> ([], None)
             | Some discordChannel \<Rightarrow>
                 (case withMentions cl (channel_guild discordChannel) text of
                    Inl e \<Rightarrow> ([], Some e)
                  | Inr mentioned \<Rightarrow>
                      ([SendMessage (channel_id discordChannel)
                          (utf16 ''**<'' @ author_nick @ utf16 ''>** '' @ mentioned)], None))))"


subsection \<open>The rule as the claim words it\<close>

text \<open>
  For the comparison with \<^verbatim>\<open>sendToDiscord\<close>. What a token is replaced by: the mention of the
  member who has it as nickname; otherwise the mention of the user who has it as username,
  if that user's nickname in the guild is unset or the token; otherwise the token as it
  stands.
\<close>

definition guildNickname :: "guild \<Rightarrow> user \<Rightarrow> jsstring option" where
  "guildNickname g u =
     (case find (\<lambda>m. user_id (member_user m) = user_id u) (members g) of
        None \<Rightarrow> None
      | Some m \<Rightarrow> nickname m)"


definition spec_mention :: "client \<Rightarrow> guild \<Rightarrow> jsstring \<Rightarrow> jsstring" where
  "spec_mention cl g token =
     (case find (\<lambda>m. nickname m = Some token) (members g) of
        Some nickUser \<Rightarrow> GuildMember_toString nickUser
      | None \<Rightarrow>
          (case find (\<lambda>u. username u = token) (client_users cl) of
             None \<Rightarrow> 0x40 # token
           | Some usr \<Rightarrow>
               if \<not> truthy (guildNickname g usr) \<or> guildNickname g usr = Some token
               then User_toString usr
               else 0x40 # token))"


text \<open>The token as the claim words it: the whole run of code units after the \<open>@\<close> that are not
  white space.\<close>

definition spec_re_mention :: regex where
  "spec_re_mention s =
     (case s of
        [] \<Rightarrow> None
      | c # r \<Rightarrow>
          if c = 0x40 \<and> takeWhile (\<lambda>x. \<not> isWhiteSpace x) r \<noteq> []
          then Some (Suc (length (takeWhile (\<lambda>x. \<not> isWhiteSpace x) r)), [])
          else None)"

definition spec_withMentions :: "client \<Rightarrow> guild \<Rightarrow> jsstring \<Rightarrow> error + jsstring" where
  "spec_withMentions cl g text =
     replace_regex spec_re_mention (\<lambda>matched grp. Inr (spec_mention cl g (drop 1 matched))) text"


section \<open>The listeners\<close>

text \<open>The events \<^verbatim>\<open>attachListeners\<close> relays, and what its listeners do with them. The listener
  of an invitation joins when \<^verbatim>\<open>this.invertedMapping[channel]\<close> is a true value: a string that is
  not empty, or an inherited property.\<close>

datatype event =
    DiscordMessage message
  | IrcMessage jsstring jsstring jsstring
  | IrcNotice jsstring jsstring jsstring
  | IrcAction jsstring jsstring jsstring
  | IrcInvite jsstring jsstring

fun listener :: "lowercasing \<Rightarrow> bot \<Rightarrow> client \<Rightarrow> event \<Rightarrow> outcome" where
  "listener lc b cl (DiscordMessage msg) = sendToIRC b cl msg"
| "listener lc b cl (IrcMessage author_nick to text) = sendToDiscord lc b cl author_nick to text"
| "listener lc b cl (IrcNotice author_nick to text) =
     sendToDiscord lc b cl author_nick to (utf16 ''*'' @ text @ utf16 ''*'')"
| "listener lc b cl (IrcAction author_nick to text) =
     sendToDiscord lc b cl author_nick to (utf16 ''_'' @ text @ utf16 ''_'')"
| "listener lc b cl (IrcInvite channel from_nick) =
     (case get_property (invertedMapping b) channel of
        Undefined \<Rightarrow> ([], None)
      | Inherited \<Rightarrow> ([Join channel], None)
      | Str discordChannelName \<Rightarrow>
          if discordChannelName = [] then ([], None) else ([Join channel], None))"


section \<open>Example data\<close>

text \<open>A configuration with two channel pairs, one of them with a channel password.\<close>

definition example_options :: options where
  "example_options =
     \<lparr> opt_server = Some (utf16 ''irc.example.net''),
       opt_nickname = Some (utf16 ''bridge''),
       opt_channelMapping =
         Some [(utf16 ''#Discord'', utf16 ''#IRC secret''), (utf16 ''#ops'', utf16 ''#Ops'')],
       opt_discordToken = Some (utf16 ''token''),
       opt_commandCharacters = Some [utf16 ''!''],
       opt_ircNickColor = None,
       opt_autoSendCommands = None \<rparr>"


text \<open>The bot this configuration gives, a guild with one member, a client that sees one
  text channel of the guild, and a message of that member in that channel.\<close>

definition example_bot :: bot where
  "example_bot =
     \<lparr> server = utf16 ''irc.example.net'',
       bot_nickname = utf16 ''bridge'',
       discordToken = utf16 ''token'',
       commandCharacters = [utf16 ''!''],
       ircNickColor = True,
       channels = [utf16 ''#IRC secret'', utf16 ''#Ops''],
       channelMapping = [(utf16 ''#Discord'', utf16 ''#irc''), (utf16 ''#ops'', utf16 ''#ops'')],
       invertedMapping = [(utf16 ''#irc'', utf16 ''#Discord''), (utf16 ''#ops'', utf16 ''#ops'')],
       autoSendCommands = [] \<rparr>"

definition alice :: user where
  "alice = \<lparr> user_id = utf16 ''123'', username = utf16 ''testuser'' \<rparr>"

definition example_guild :: guild where
  "example_guild = \<lparr> members = [\<lparr> member_user = alice, nickname = None \<rparr>] \<rparr>"

definition example_channel :: channel where
  "example_channel =
     \<lparr> channel_id = utf16 ''1234'', channel_name = utf16 ''ops'',
       channel_type = TextChannel, channel_guild = example_guild \<rparr>"

definition example_client :: client where
  "example_client =
     \<lparr> client_user = \<lparr> user_id = utf16 ''999'', username = utf16 ''bridge'' \<rparr>,
       client_channels = [example_channel],
       client_users = [alice] \<rparr>"

definition example_message :: "jsstring \<Rightarrow> jsstring list \<Rightarrow> message" where
  "example_message body urls =
     \<lparr> author = alice, message_channel = example_channel, message_guild = example_guild,
       content = body, mentions_users = [], attachments = urls \<rparr>"

text \<open>A second member of a guild, whose nickname in the guild is not the username, and a
  command of that member in the channel.\<close>

definition bob :: user where
  "bob = \<lparr> user_id = utf16 ''456'', username = utf16 ''bob'' \<rparr>"

definition nickname_guild :: guild where
  "nickname_guild =
     \<lparr> members = [\<lparr> member_user = alice, nickname = None \<rparr>,
                  \<lparr> member_user = bob, nickname = Some (utf16 ''bobby'') \<rparr>] \<rparr>"

definition nickname_command :: message where
  "nickname_command =
     \<lparr> author = bob, message_channel = example_channel \<lparr> channel_guild := nickname_guild \<rparr>,
       message_guild = nickname_guild, content = utf16 ''!test command'', mentions_users = [],
       attachments = [utf16 ''https://image/url.jpg''] \<rparr>"

text \<open>A message that mentions one user twice.\<close>

definition repeated_mention :: message where
  "repeated_mention = (example_message (utf16 ''<@123> hi <@123>'') []) \<lparr> mentions_users := [alice] \<rparr>"


text \<open>A message that refers to a channel the client does not know.\<close>

definition unresolved_reference :: message where
  "unresolved_reference = example_message (utf16 ''see <#5555> now'') [utf16 ''https://image/url.jpg'']"

section \<open>The channel mapping and its inverse\<close>

lemma toLowerCase_empty_iff: "(toLowerCase lc s = []) = (s = [])"
  using Rep_lowercasing [of lc] by (simp add: toLowerCase_def)

lemma toLowerCase_basic_latin:
  "toLowerCase basic_latin s = map (\<lambda>c. if 0x41 \<le> c \<and> c \<le> 0x5A then c + 0x20 else c) s"
  by (simp add: toLowerCase_def basic_latin.rep_eq)

lemma get_property_Str: "(get_property obj k = Str v) = (map_of obj k = Some v)"
  by (simp add: get_property_def split: option.splits)

text \<open>A key that starts with \<^verbatim>\<open>#\<close> is the name of no inherited property.\<close>

lemma get_property_hash:
  "get_property obj (utf16 ''#'' @ name) =
     (case map_of obj (utf16 ''#'' @ name) of None \<Rightarrow> Undefined | Some v \<Rightarrow> Str v)"
  by (simp add: get_property_def Object_prototype_def utf16_def split: option.splits)

lemma update_fresh: "k \<notin> fst ` set al \<Longrightarrow> AList.update k v al = al @ [(k, v)]"
  by (induct al) auto

lemma fold_set_property_distinct:
  "distinct (map fst xs) \<Longrightarrow> fst ` set xs \<inter> fst ` set acc = {} \<Longrightarrow>
   utf16 ''__proto__'' \<notin> fst ` set acc \<Longrightarrow>
   fold (\<lambda>(k, v) m. set_property m k (f v)) xs acc =
     acc @ map (\<lambda>(k, v). (k, f v)) (filter (\<lambda>(k, v). k \<noteq> utf16 ''__proto__'') xs)"
proof (induction xs arbitrary: acc)
  case Nil
  then show ?case by simp
next
  case (Cons x xs)
  obtain k v where x: "x = (k, v)" by (cases x)
  from Cons.prems have fresh: "k \<notin> fst ` set acc" by (auto simp: x)
  from Cons.prems have d: "distinct (map fst xs)" and
    disj: "fst ` set xs \<inter> fst ` set (acc @ [(k, f v)]) = {}" and
    disj': "fst ` set xs \<inter> fst ` set acc = {}" and
    own: "utf16 ''__proto__'' \<notin> fst ` set acc"
    by (auto simp: x)
  from own have none: "map_of acc (utf16 ''__proto__'') = None"
    by (simp add: map_of_eq_None_iff)
  show ?case
  proof (cases "k = utf16 ''__proto__''")
    case True
    then have "set_property acc k (f v) = acc"
      using none by (simp add: set_property_def)
    with Cons.IH [OF d disj' own] True show ?thesis
      by (simp add: x)
  next
    case False
    then have "set_property acc k (f v) = acc @ [(k, f v)]"
      by (simp add: set_property_def update_fresh [OF fresh])
    moreover from False own have "utf16 ''__proto__'' \<notin> fst ` set (acc @ [(k, f v)])"
      by auto
    ultimately show ?thesis
      using Cons.IH [OF d disj] False by (simp add: x)
  qed
qed

text \<open>On an object, the loop of the constructor keeps the keys and their order; a key
  \<^verbatim>\<open>__proto__\<close> of the raw mapping is not stored.\<close>

lemma stripMapping_js_object:
  "js_object raw \<Longrightarrow>
   stripMapping lc raw =
     map (\<lambda>(d, i). (d, toLowerCase lc (split_space_0 i))) (filter (\<lambda>(d, i). d \<noteq> utf16 ''__proto__'') raw)"
  unfolding stripMapping_def js_object_def
  using fold_set_property_distinct [of raw "[]" "\<lambda>i. toLowerCase lc (split_space_0 i)"] by simp

lemma map_of_fold_invert:
  "map_of acc (utf16 ''__proto__'') = None \<Longrightarrow>
   map_of (fold (\<lambda>(key, val) result. set_property result val key) xs acc) =
   map_of (map (\<lambda>(key, val). (val, key)) (rev (filter (\<lambda>(key, val). val \<noteq> utf16 ''__proto__'') xs)) @ acc)"
proof (induction xs arbitrary: acc)
  case Nil
  then show ?case by simp
next
  case (Cons x xs)
  obtain k v where x: "x = (k, v)" by (cases x)
  show ?case
  proof (cases "v = utf16 ''__proto__''")
    case True
    then have "set_property acc v k = acc"
      using Cons.prems by (simp add: set_property_def)
    then show ?thesis
      using Cons.IH [OF Cons.prems] by (simp add: x True)
  next
    case False
    then have u: "set_property acc v k = AList.update v k acc"
      by (simp add: set_property_def)
    from False Cons.prems have "map_of (AList.update v k acc) (utf16 ''__proto__'') = None"
      by (simp add: update_conv')
    from Cons.IH [OF this] show ?thesis
      by (simp add: x u False update_conv' map_add_upd_left fun_eq_iff map_add_def)
  qed
qed

text \<open>Looking a value up in the inverted object finds the last key that has it; a value
  \<^verbatim>\<open>__proto__\<close> is not stored as a key.\<close>

lemma map_of_invert:
  "map_of (invert obj) =
   map_of (map (\<lambda>(key, val). (val, key)) (rev (filter (\<lambda>(key, val). val \<noteq> utf16 ''__proto__'') obj)))"
  by (simp add: invert_def map_of_fold_invert)

lemma set_swapped:
  "((v, k) \<in> set (map (\<lambda>(key, val). (val, key)) (rev xs))) = ((k, v) \<in> set xs)"
  by (induction xs) auto

lemma set_swapped_filter:
  "((v, k) \<in> set (map (\<lambda>(key, val). (val, key)) (rev (filter (\<lambda>(key, val). val \<noteq> p) xs))))
     = ((k, v) \<in> set xs \<and> v \<noteq> p)"
  by (induction xs) auto

lemma Bot_fields:
  assumes "Bot lc opts = Inr b"
  obtains raw where "opt_channelMapping opts = Some raw"
    and "validateChannelMapping raw = Inr ()"
    and "channelMapping b = stripMapping lc raw"
    and "invertedMapping b = invert (stripMapping lc raw)"
    and "commandCharacters b = (case opt_commandCharacters opts of None \<Rightarrow> [] | Some cs \<Rightarrow> cs)"
    and "ircNickColor b = (opt_ircNickColor opts \<noteq> Some False)"
  using assms unfolding Bot_def
  by (auto split: sum.splits option.splits)

text \<open>
  C1, as the code has it. For a raw channel mapping that the constructor accepts and a
  Discord channel \<open>c\<close> that is a key of it with the raw value \<open>ircSpec\<close>, neither \<open>c\<close> nor the
  IRC name being \<^verbatim>\<open>__proto__\<close> (which the two objects do not store): the forward map
  sends \<open>c\<close> to the lowercased first token of \<open>ircSpec\<close>; the inverse map sends that IRC name
  to a key whose forward image is the same IRC name; and when \<open>c\<close> is the only such key,
  the inverse map returns \<open>c\<close> itself, in the case it was written in. This holds for every
  lowercasing \<open>lc\<close>.
\<close>

theorem channelMapping_inverse:
  assumes b: "Bot lc opts = Inr b"
    and raw: "opt_channelMapping opts = Some raw"
    and obj: "js_object raw"
    and c: "(c, ircSpec) \<in> set raw"
    and stored: "c \<noteq> utf16 ''__proto__''" "toLowerCase lc (split_space_0 ircSpec) \<noteq> utf16 ''__proto__''"
  shows "get_property (channelMapping b) c = Str (toLowerCase lc (split_space_0 ircSpec))
       \<and> (\<exists>c'. get_property (invertedMapping b) (toLowerCase lc (split_space_0 ircSpec)) = Str c'
              \<and> get_property (channelMapping b) c' = Str (toLowerCase lc (split_space_0 ircSpec)))
       \<and> ((\<forall>c'. get_property (channelMapping b) c' = Str (toLowerCase lc (split_space_0 ircSpec)) \<longrightarrow> c' = c)
            \<longrightarrow> get_property (invertedMapping b) (toLowerCase lc (split_space_0 ircSpec)) = Str c)"
proof -
  let ?f = "\<lambda>i. toLowerCase lc (split_space_0 i)"
  let ?kept = "filter (\<lambda>(d, i). d \<noteq> utf16 ''__proto__'') raw"
  let ?fwd = "map (\<lambda>(d, i). (d, ?f i)) ?kept"
  from b raw have cm: "channelMapping b = stripMapping lc raw"
    and im: "invertedMapping b = invert (stripMapping lc raw)"
    by (auto elim!: Bot_fields)
  have fwd: "stripMapping lc raw = ?fwd"
    using obj by (rule stripMapping_js_object)
  have keys: "map fst ?fwd = map fst ?kept"
    by (induction raw) auto
  have "distinct (map fst ?kept)"
    using obj unfolding js_object_def by (rule distinct_map_filter)
  then have dist: "distinct (map fst ?fwd)"
    unfolding keys .
  have "(c, ircSpec) \<in> set ?kept"
    using c stored(1) by simp
  then have mem: "(c, ?f ircSpec) \<in> set ?fwd"
    by force
  have forward: "map_of (channelMapping b) c = Some (?f ircSpec)"
    using dist mem by (simp add: cm fwd)
  let ?inv = "map (\<lambda>(key, val). (val, key)) (rev (filter (\<lambda>(key, val). val \<noteq> utf16 ''__proto__'') ?fwd))"
  have inv: "map_of (invertedMapping b) = map_of ?inv"
    by (simp add: im fwd map_of_invert)
  have swap: "\<And>k v. ((v, k) \<in> set ?inv) = ((k, v) \<in> set ?fwd \<and> v \<noteq> utf16 ''__proto__'')"
    by (rule set_swapped_filter)
  have "(?f ircSpec, c) \<in> set ?inv"
    using mem stored(2) by (simp only: swap simp_thms)
  then have "?f ircSpec \<in> fst ` set ?inv"
    by (rule image_eqI [rotated]) simp
  then have "map_of ?inv (?f ircSpec) \<noteq> None"
    unfolding map_of_eq_None_iff by simp
  then obtain c' where c': "map_of ?inv (?f ircSpec) = Some c'"
    by blast
  then have "(?f ircSpec, c') \<in> set ?inv"
    by (rule map_of_SomeD)
  then have "(c', ?f ircSpec) \<in> set ?fwd"
    by (simp only: swap)
  then have backward: "map_of (channelMapping b) c' = Some (?f ircSpec)"
    using dist by (simp add: cm fwd)
  have i: "map_of (invertedMapping b) (?f ircSpec) = Some c'"
    using c' by (simp only: inv)
  show ?thesis
    unfolding get_property_Str
  proof (intro conjI impI)
    show "map_of (channelMapping b) c = Some (?f ircSpec)"
      by (rule forward)
    show "\<exists>c'. map_of (invertedMapping b) (?f ircSpec) = Some c'
              \<and> map_of (channelMapping b) c' = Some (?f ircSpec)"
      using i backward by blast
    assume "\<forall>c'. map_of (channelMapping b) c' = Some (?f ircSpec) \<longrightarrow> c' = c"
    then have "c' = c"
      using backward by blast
    then show "map_of (invertedMapping b) (?f ircSpec) = Some c"
      using i by simp
  qed
qed

lemmas example_defs =
  example_options_def Bot_def required_def validateChannelMapping_def utf16_def
  split_space_0_def stripMapping_def invert_def set_property_def get_property_def
  Object_prototype_def toLowerCase_basic_latin lodash_values_def

theorem channelMapping_inverse_witness:
  "\<exists>b. Bot basic_latin example_options = Inr b
     \<and> get_property (channelMapping b) (utf16 ''#ops'') = Str (utf16 ''#ops'')
     \<and> get_property (invertedMapping b) (utf16 ''#ops'') = Str (utf16 ''#ops'')"
proof -
  define raw where "raw = [(utf16 ''#Discord'', utf16 ''#IRC secret''), (utf16 ''#ops'', utf16 ''#Ops'')]"
  obtain b where b: "Bot basic_latin example_options = Inr b"
    by (simp add: example_defs)
  have r: "opt_channelMapping example_options = Some raw"
    by (simp add: example_options_def raw_def)
  have obj: "js_object raw"
    by (simp add: js_object_def raw_def utf16_def)
  have c: "(utf16 ''#ops'', utf16 ''#Ops'') \<in> set raw"
    by (simp add: raw_def)
  have low: "toLowerCase basic_latin (split_space_0 (utf16 ''#Ops'')) = utf16 ''#ops''"
    by (simp add: example_defs)
  have stored: "utf16 ''#ops'' \<noteq> utf16 ''__proto__''"
    "toLowerCase basic_latin (split_space_0 (utf16 ''#Ops'')) \<noteq> utf16 ''__proto__''"
    by (simp_all add: example_defs)
  from b r have "channelMapping b = stripMapping basic_latin raw"
    by (auto elim!: Bot_fields)
  then have cm: "channelMapping b = [(utf16 ''#Discord'', utf16 ''#irc''), (utf16 ''#ops'', utf16 ''#ops'')]"
    by (simp add: raw_def example_defs)
  have only: "\<forall>c'. get_property (channelMapping b) c' = Str (utf16 ''#ops'') \<longrightarrow> c' = utf16 ''#ops''"
    by (simp add: cm get_property_Str utf16_def)
  from channelMapping_inverse [OF b r obj c stored] only b show ?thesis
    unfolding low by blast
qed

text \<open>The inverse map returns the key as it was written, which is not its lowercase form.\<close>

theorem channelMapping_inverse_counterexample:
  "(case Bot basic_latin example_options of
      Inl e \<Rightarrow> False
    | Inr b \<Rightarrow>
        get_property (channelMapping b) (utf16 ''#Discord'') = Str (utf16 ''#irc'')
      \<and> get_property (invertedMapping b) (utf16 ''#irc'') = Str (utf16 ''#Discord'')
      \<and> get_property (invertedMapping b) (utf16 ''#irc'') \<noteq> Str (toLowerCase basic_latin (utf16 ''#Discord'')))"
  by (simp add: example_defs)


section \<open>What a constructed bot holds\<close>

lemma set_update_cases:
  "(a, b) \<in> set (AList.update k v al) \<Longrightarrow> (a, b) = (k, v) \<or> (a, b) \<in> set al"
  by (induct al) (auto split: if_splits)

lemma set_property_cases:
  "(a, b) \<in> set (set_property al k v) \<Longrightarrow> (a, b) = (k, v) \<or> (a, b) \<in> set al"
  unfolding set_property_def by (auto dest: set_update_cases split: if_splits)

lemma stripMapping_entries_aux:
  "(d, i) \<in> set (fold (\<lambda>(discordChan, ircChan) m. set_property m discordChan (f ircChan)) xs acc) \<Longrightarrow>
   (d, i) \<in> set acc \<or> (\<exists>ircChan. (d, ircChan) \<in> set xs \<and> i = f ircChan)"
proof (induction xs arbitrary: acc)
  case Nil
  then show ?case by simp
next
  case (Cons x xs)
  obtain k v where x: "x = (k, v)" by (cases x)
  from Cons.prems have "(d, i) \<in> set (fold (\<lambda>(discordChan, ircChan) m. set_property m discordChan (f ircChan)) xs (set_property acc k (f v)))"
    by (simp add: x)
  from Cons.IH [OF this] show ?case
    by (auto simp: x dest: set_property_cases)
qed

lemma stripMapping_entries:
  "(d, i) \<in> set (stripMapping lc raw) \<Longrightarrow>
   \<exists>ircChan. (d, ircChan) \<in> set raw \<and> i = toLowerCase lc (split_space_0 ircChan)"
  unfolding stripMapping_def
  by (drule stripMapping_entries_aux) simp

lemma validated_entry:
  "validateChannelMapping raw = Inr () \<Longrightarrow> (d, ircChan) \<in> set raw \<Longrightarrow>
   d \<noteq> [] \<and> split_space_0 ircChan \<noteq> []"
  by (auto simp: validateChannelMapping_def list_ex_iff split: if_splits)

lemma channelMapping_entry_nonempty:
  assumes "Bot lc opts = Inr b" and "(d, i) \<in> set (channelMapping b)"
  shows "d \<noteq> [] \<and> i \<noteq> []"
proof -
  from assms(1) obtain raw where v: "validateChannelMapping raw = Inr ()"
    and cm: "channelMapping b = stripMapping lc raw"
    by (rule Bot_fields)
  from assms(2) obtain ircChan where "(d, ircChan) \<in> set raw" and i: "i = toLowerCase lc (split_space_0 ircChan)"
    unfolding cm by (blast dest: stripMapping_entries)
  with v have "d \<noteq> [] \<and> split_space_0 ircChan \<noteq> []"
    by (blast dest: validated_entry)
  then show ?thesis
    by (simp add: i toLowerCase_empty_iff)
qed

lemma channelMapping_lookup_nonempty:
  assumes "Bot lc opts = Inr b" and "map_of (channelMapping b) d = Some i"
  shows "i \<noteq> []"
  using channelMapping_entry_nonempty [OF assms(1) map_of_SomeD [OF assms(2)]] by simp

text \<open>The own properties of the inverted mapping: its keys are the IRC names of the channel
  mapping, but for \<^verbatim>\<open>__proto__\<close>, and its values are Discord channels of the mapping.\<close>

lemma invertedMapping_lookup:
  assumes "Bot lc opts = Inr b" and "map_of (invertedMapping b) i = Some d"
  shows "(d, i) \<in> set (channelMapping b)"
proof -
  from assms(1) obtain raw where cm: "channelMapping b = stripMapping lc raw"
    and im: "invertedMapping b = invert (stripMapping lc raw)"
    by (rule Bot_fields)
  let ?inv = "map (\<lambda>(key, val). (val, key))
    (rev (filter (\<lambda>(key, val). val \<noteq> utf16 ''__proto__'') (channelMapping b)))"
  from assms(2) have "map_of ?inv i = Some d"
    by (simp add: im cm map_of_invert)
  then have "(i, d) \<in> set ?inv"
    by (rule map_of_SomeD)
  then show ?thesis
    by (simp only: set_swapped_filter)
qed

lemma invertedMapping_keys:
  assumes "Bot lc opts = Inr b"
  shows "(map_of (invertedMapping b) i = None)
       = (i \<notin> snd ` set (channelMapping b) \<or> i = utf16 ''__proto__'')"
proof -
  from assms obtain raw where cm: "channelMapping b = stripMapping lc raw"
    and im: "invertedMapping b = invert (stripMapping lc raw)"
    by (rule Bot_fields)
  let ?inv = "map (\<lambda>(key, val). (val, key))
    (rev (filter (\<lambda>(key, val). val \<noteq> utf16 ''__proto__'') (channelMapping b)))"
  have "(i \<in> fst ` set ?inv) = (\<exists>d. (i, d) \<in> set ?inv)"
    by force
  also have "\<dots> = (\<exists>d. (d, i) \<in> set (channelMapping b) \<and> i \<noteq> utf16 ''__proto__'')"
    by (simp only: set_swapped_filter)
  also have "\<dots> = (i \<in> snd ` set (channelMapping b) \<and> i \<noteq> utf16 ''__proto__'')"
    by force
  finally have "(i \<in> fst ` set ?inv) = (i \<in> snd ` set (channelMapping b) \<and> i \<noteq> utf16 ''__proto__'')" .
  moreover have "map_of (invertedMapping b) = map_of ?inv"
    by (simp add: im cm map_of_invert)
  ultimately show ?thesis
    by (simp add: map_of_eq_None_iff)
qed

lemma commandCharacters_default:
  assumes "Bot lc opts = Inr b"
  shows "commandCharacters b = (case opt_commandCharacters opts of None \<Rightarrow> [] | Some cs \<Rightarrow> cs)"
  using assms by (rule Bot_fields)

lemma Bot_example: "Bot basic_latin example_options = Inr example_bot"
  by (simp add: example_defs example_bot_def)

lemmas example_defs2 = example_defs alice_def example_guild_def example_channel_def example_client_def
  example_message_def

lemmas eval_defs = example_defs2 example_bot_def sendToIRC_def sendToDiscord_def parseText_def
  re_channel_def re_emote_def re_mention_def wordBoundary_def isWhiteSpace_def isDigit_def isWordChar_def
  channelName_def mention_def withMentions_def getDiscordNicknameOnServer_def isCommandMessage_def
  displayUsername_def nickColor_def colorIndex_def NICK_COLORS_def irc_colors_wrap_def irc_colors_codes_def
  replaceMention_def replace_string_def User_toString_def GuildMember_toString_def truthy_def Let_def


section \<open>Messages that are not relayed\<close>

text \<open>
  C6. A Discord message whose author has the id of the client's own user makes no call on
  the IRC client, whatever its channel and content: \<^verbatim>\<open>sendToIRC\<close> returns at once.
\<close>

theorem self_message_dropped:
  "user_id (author msg) = user_id (client_user cl) \<Longrightarrow>
   sendToIRC b cl msg = ([], None) \<and> listener lc b cl (DiscordMessage msg) = ([], None)"
  by (simp add: sendToIRC_def)

theorem self_message_dropped_witness:
  "listener basic_latin example_bot example_client
     (DiscordMessage ((example_message (utf16 ''hello'') []) \<lparr> author := client_user example_client \<rparr>)) = ([], None)"
  using self_message_dropped [of "(example_message (utf16 ''hello'') []) \<lparr> author := client_user example_client \<rparr>" example_client example_bot basic_latin]
  by simp

text \<open>
  A message from a channel that is not mapped. A Discord message whose channel \<^verbatim>\<open>#name\<close> is no
  key of the channel mapping makes no call and raises no error. So does an IRC message,
  notice or action whose lowercased target is no IRC name of the channel mapping, unless
  that target is the name of an inherited property.
\<close>

lemma unmapped_channel_dropped:
  assumes "Bot lc opts = Inr b"
  shows "(map_of (channelMapping b) (utf16 ''#'' @ channel_name (message_channel msg)) = None
            \<longrightarrow> listener lc b cl (DiscordMessage msg) = ([], None))
       \<and> (toLowerCase lc to \<notin> snd ` set (channelMapping b) \<and> toLowerCase lc to \<notin> set Object_prototype
            \<longrightarrow> listener lc b cl (IrcMessage nick to text) = ([], None)
              \<and> listener lc b cl (IrcNotice nick to text) = ([], None)
              \<and> listener lc b cl (IrcAction nick to text) = ([], None))"
proof (intro conjI impI)
  assume "map_of (channelMapping b) (utf16 ''#'' @ channel_name (message_channel msg)) = None"
  then show "listener lc b cl (DiscordMessage msg) = ([], None)"
    unfolding listener.simps sendToIRC_def by simp
next
  assume a: "toLowerCase lc to \<notin> snd ` set (channelMapping b) \<and> toLowerCase lc to \<notin> set Object_prototype"
  then have "map_of (invertedMapping b) (toLowerCase lc to) = None"
    using invertedMapping_keys [OF assms, of "toLowerCase lc to"] by blast
  with a have unmapped: "get_property (invertedMapping b) (toLowerCase lc to) = Undefined"
    by (simp add: get_property_def)
  show "listener lc b cl (IrcMessage nick to text) = ([], None)"
    unfolding listener.simps sendToDiscord_def unmapped by simp
  show "listener lc b cl (IrcNotice nick to text) = ([], None)"
    unfolding listener.simps sendToDiscord_def unmapped by simp
  show "listener lc b cl (IrcAction nick to text) = ([], None)"
    unfolding listener.simps sendToDiscord_def unmapped by simp
qed

text \<open>
  C5. The claim fails on an IRC message whose target is the name of a property that every
  object inherits: \<^verbatim>\<open>constructor\<close> is no IRC name of the channel mapping of the example, yet
  \<^verbatim>\<open>this.invertedMapping['constructor']\<close> is a true value, \<^verbatim>\<open>sendToDiscord\<close> goes on as for a
  mapped channel, and \<^verbatim>\<open>discordChannelName.slice(1)\<close> throws a TypeError, which leaves the
  listener. The same holds for a notice and for an action.
\<close>

theorem inherited_target_raises:
  "Bot basic_latin example_options = Inr example_bot
   \<and> utf16 ''constructor'' \<notin> snd ` set (channelMapping example_bot)
   \<and> toLowerCase basic_latin (utf16 ''constructor'') = utf16 ''constructor''
   \<and> listener basic_latin example_bot example_client
       (IrcMessage (utf16 ''nick'') (utf16 ''constructor'') (utf16 ''hello'')) = ([], Some TypeError)
   \<and> listener basic_latin example_bot example_client
       (IrcNotice (utf16 ''nick'') (utf16 ''constructor'') (utf16 ''hello'')) = ([], Some TypeError)
   \<and> listener basic_latin example_bot example_client
       (IrcAction (utf16 ''nick'') (utf16 ''constructor'') (utf16 ''hello'')) = ([], Some TypeError)"
  by (simp add: eval_defs)


section \<open>Invitations\<close>

text \<open>
  What an invitation does: the bot joins the channel, as the event names it, if the channel
  is an IRC name of the channel mapping or the name of an inherited property, and makes no
  call otherwise.
\<close>

lemma invite_join:
  assumes "Bot lc opts = Inr b"
  shows "listener lc b cl (IrcInvite channel from_nick) =
           (if channel \<in> snd ` set (channelMapping b) \<or> channel \<in> set Object_prototype
            then [Join channel] else [], None)"
proof (cases "map_of (invertedMapping b) channel")
  case None
  then have "channel \<notin> snd ` set (channelMapping b) \<or> channel = utf16 ''__proto__''"
    using invertedMapping_keys [OF assms, of channel] by simp
  moreover have "utf16 ''__proto__'' \<in> set Object_prototype"
    by (simp add: Object_prototype_def)
  ultimately show ?thesis
    unfolding listener.simps get_property_def None by auto
next
  case (Some d)
  then have m: "(d, channel) \<in> set (channelMapping b)"
    using assms by (blast intro: invertedMapping_lookup)
  then have "d \<noteq> []"
    using assms by (blast dest: channelMapping_entry_nonempty)
  moreover from m have "channel \<in> snd ` set (channelMapping b)"
    by force
  ultimately show ?thesis
    unfolding listener.simps get_property_def Some by simp
qed

text \<open>
  C10. The claim fails on an invitation to a channel whose name is the name of a property
  that every object inherits: \<^verbatim>\<open>constructor\<close> is no own key of the inverted mapping of the
  example, yet \<^verbatim>\<open>this.invertedMapping['constructor']\<close> is a true value, and the bot joins.
\<close>

theorem inherited_invite_joins:
  "Bot basic_latin example_options = Inr example_bot
   \<and> utf16 ''constructor'' \<notin> fst ` set (invertedMapping example_bot)
   \<and> listener basic_latin example_bot example_client (IrcInvite (utf16 ''constructor'') (utf16 ''nick''))
       = ([Join (utf16 ''constructor'')], None)"
  by (simp add: eval_defs)


section \<open>The lines sent to IRC\<close>

lemma NICK_COLORS_codes:
  "i < 12 \<Longrightarrow> map_of irc_colors_codes (NICK_COLORS ! i) \<noteq> None"
proof -
  have "list_all (\<lambda>c. map_of irc_colors_codes c \<noteq> None) NICK_COLORS"
    by (simp add: NICK_COLORS_def irc_colors_codes_def)
  moreover assume "i < 12"
  ultimately show ?thesis
    by (simp add: list_all_length NICK_COLORS_def)
qed

lemma parseText_command: "parseText example_client (example_message (utf16 ''!test command'') [utf16 ''https://image/url.jpg'']) = Inr (utf16 ''!test command'')"
  by (simp add: eval_defs)

lemma parseText_look: "parseText example_client (example_message (utf16 ''Look!'') [utf16 ''https://image/url.jpg'']) = Inr (utf16 ''Look!'')"
  by (simp add: eval_defs)

lemma parseText_empty: "parseText example_client (example_message [] [utf16 ''https://image/url.jpg'']) = Inr []"
  by (simp add: eval_defs)

text \<open>
  C7. For a message that is relayed (its author is not the bot, its channel is mapped, its
  text is transformed to \<open>text\<close>): \<open>text\<close> is a command exactly when it is not empty and the
  string of its first code unit is one of the configured command characters, none by
  default; and for a command \<^verbatim>\<open>sendToIRC\<close> says two lines in the mapped IRC channel and nothing
  else. The first is the prelude \<^verbatim>\<open>Command sent from Discord by\<close>, the name of the author and
  a colon, where the name is the nickname that the member of the message's guild with the
  author's id has in that guild, if there is such a member and the nickname is set and not
  empty, and the username of the author otherwise; the name stands there as it is, without
  the colour code and the reset code that \<open>displayUsername\<close> puts around it when colours are
  on. The second line is the transformed text itself.
\<close>

theorem command_two_lines:
  assumes b: "Bot lc opts = Inr b"
    and other: "user_id (author msg) \<noteq> user_id (client_user cl)"
    and mapped: "map_of (channelMapping b) (utf16 ''#'' @ channel_name (message_channel msg)) = Some ircChannel"
    and parsed: "parseText cl msg = Inr text"
    and name: "name =
      (case find (\<lambda>m. user_id (member_user m) = user_id (author msg)) (members (message_guild msg)) of
         None \<Rightarrow> username (author msg)
       | Some m \<Rightarrow>
           (case nickname m of
              None \<Rightarrow> username (author msg)
            | Some n \<Rightarrow> if n = [] then username (author msg) else n))"
  shows "isCommandMessage b text =
           (text \<noteq> [] \<and> [hd text] \<in> set (case opt_commandCharacters opts of None \<Rightarrow> [] | Some cs \<Rightarrow> cs))
       \<and> (opt_commandCharacters opts = None \<longrightarrow> \<not> isCommandMessage b text)
       \<and> getDiscordNicknameOnServer (author msg) (message_guild msg) = name
       \<and> (isCommandMessage b text \<longrightarrow>
            sendToIRC b cl msg =
              ([Say ircChannel (utf16 ''Command sent from Discord by '' @ name @ utf16 '':''),
                Say ircChannel text], None))
       \<and> (ircNickColor b \<and> name \<noteq> [] \<longrightarrow> displayUsername b name \<noteq> name)"
proof -
  have cc: "commandCharacters b = (case opt_commandCharacters opts of None \<Rightarrow> [] | Some cs \<Rightarrow> cs)"
    using b by (rule commandCharacters_default)
  have ne: "ircChannel \<noteq> []"
    using b mapped by (rule channelMapping_lookup_nonempty)
  have iff: "isCommandMessage b text =
           (text \<noteq> [] \<and> [hd text] \<in> set (case opt_commandCharacters opts of None \<Rightarrow> [] | Some cs \<Rightarrow> cs))"
    by (cases "text") (simp_all add: isCommandMessage_def cc)
  have dflt: "opt_commandCharacters opts = None \<longrightarrow> \<not> isCommandMessage b text"
    by (simp add: iff)
  have two: "isCommandMessage b text \<longrightarrow>
            sendToIRC b cl msg =
              ([Say ircChannel (utf16 ''Command sent from Discord by ''
                   @ getDiscordNicknameOnServer (author msg) (message_guild msg) @ utf16 '':''),
                Say ircChannel text], None)"
    using other ne by (simp add: sendToIRC_def mapped parsed)
  have nick: "getDiscordNicknameOnServer (author msg) (message_guild msg) = name"
    unfolding name getDiscordNicknameOnServer_def by (simp split: option.splits)
  have coloured: "ircNickColor b \<and> name \<noteq> [] \<longrightarrow> displayUsername b name \<noteq> name"
  proof
    assume c: "ircNickColor b \<and> name \<noteq> []"
    then obtain x xs where x: "name = x # xs"
      by (cases name) auto
    have "(unat x + length name) mod 12 < 12"
      by simp
    then have "map_of irc_colors_codes (NICK_COLORS ! ((unat x + length name) mod 12)) \<noteq> None"
      by (rule NICK_COLORS_codes)
    then obtain code where "map_of irc_colors_codes (NICK_COLORS ! ((unat x + length name) mod 12)) = Some code"
      by blast
    then have "displayUsername b name = code @ name @ [0x0F]"
      using c by (simp add: displayUsername_def nickColor_def colorIndex_def irc_colors_wrap_def
          NICK_COLORS_def x)
    then have "length (displayUsername b name) \<noteq> length name"
      by simp
    then show "displayUsername b name \<noteq> name"
      by auto
  qed
  from iff dflt two nick coloured show ?thesis
    by simp
qed

theorem command_two_lines_witness:
  "sendToIRC example_bot example_client nickname_command =
     ([Say (utf16 ''#ops'') (utf16 ''Command sent from Discord by bobby:''),
       Say (utf16 ''#ops'') (utf16 ''!test command'')], None)
   \<and> sendToIRC example_bot example_client (example_message (utf16 ''!test command'') [utf16 ''https://image/url.jpg'']) =
     ([Say (utf16 ''#ops'') (utf16 ''Command sent from Discord by testuser:''),
       Say (utf16 ''#ops'') (utf16 ''!test command'')], None)"
proof -
  let ?m = "example_message (utf16 ''!test command'') [utf16 ''https://image/url.jpg'']"
  let ?n = nickname_command
  have other: "user_id (author ?m) \<noteq> user_id (client_user example_client)"
    "user_id (author ?n) \<noteq> user_id (client_user example_client)"
    by (simp_all add: eval_defs nickname_command_def bob_def)
  have mapped: "map_of (channelMapping example_bot) (utf16 ''#'' @ channel_name (message_channel ?m)) = Some (utf16 ''#ops'')"
    "map_of (channelMapping example_bot) (utf16 ''#'' @ channel_name (message_channel ?n)) = Some (utf16 ''#ops'')"
    by (simp_all add: eval_defs nickname_command_def)
  have parsed: "parseText example_client ?n = Inr (utf16 ''!test command'')"
    by (simp add: eval_defs nickname_command_def)
  have cmd: "isCommandMessage example_bot (utf16 ''!test command'')"
    by (simp add: eval_defs)
  have name: "utf16 ''testuser'' =
      (case find (\<lambda>m. user_id (member_user m) = user_id (author ?m)) (members (message_guild ?m)) of
         None \<Rightarrow> username (author ?m)
       | Some m \<Rightarrow>
           (case nickname m of
              None \<Rightarrow> username (author ?m)
            | Some n \<Rightarrow> if n = [] then username (author ?m) else n))"
    "utf16 ''bobby'' =
      (case find (\<lambda>m. user_id (member_user m) = user_id (author ?n)) (members (message_guild ?n)) of
         None \<Rightarrow> username (author ?n)
       | Some m \<Rightarrow>
           (case nickname m of
              None \<Rightarrow> username (author ?n)
            | Some n \<Rightarrow> if n = [] then username (author ?n) else n))"
    by (simp_all add: eval_defs nickname_command_def nickname_guild_def bob_def)
  from command_two_lines [OF Bot_example other(2) mapped(2) parsed name(2)]
    command_two_lines [OF Bot_example other(1) mapped(1) parseText_command name(1)] cmd
  show ?thesis
    by (simp add: utf16_def)
qed

text \<open>Every replacement of \<^verbatim>\<open>parseText\<close> puts at least one code unit, so the transformed text is
  empty only for an empty body.\<close>

lemma replace_regex_empty_iff:
  assumes "replace_regex re f s = Inr t"
    and "\<And>x n g r. re x = Some (n, g) \<Longrightarrow> f (take n x) g = Inr r \<Longrightarrow> r \<noteq> []"
  shows "(t = []) = (s = [])"
proof (cases s)
  case Nil
  with assms(1) show ?thesis by simp
next
  case (Cons c cs)
  with assms show ?thesis
    by (auto split: option.splits sum.splits if_splits)
qed

lemma getSubstitution_at: "getSubstitution m h r (0x40 # x) \<noteq> []"
  by (cases x) simp_all

lemma replace_string_empty_iff:
  "pat \<noteq> [] \<Longrightarrow> (replace_string s pat (0x40 # x) = []) = (s = [])"
  by (cases s) (auto simp: replace_string_def Let_def getSubstitution_at split: option.splits)

lemma replaceMention_empty_iff: "(replaceMention g s u = []) = (s = [])"
  by (simp add: replaceMention_def Let_def utf16_def replace_string_empty_iff)

lemma foldl_replaceMention_empty_iff: "(foldl (replaceMention g) s us = []) = (s = [])"
  by (induction us arbitrary: s) (simp_all add: replaceMention_empty_iff)

lemma parseText_empty_iff:
  assumes "parseText cl msg = Inr text"
  shows "(text = []) = (content msg = [])"
proof -
  let ?t0 = "foldl (replaceMention (message_guild msg)) (content msg) (mentions_users msg)"
  from assms obtain t1 t2 where
    t1: "replace_regex re_newline (\<lambda>matched grp. Inr (utf16 '' '')) ?t0 = Inr t1" and
    t2: "replace_regex re_channel (channelName cl) t1 = Inr t2" and
    t3: "replace_regex re_emote (\<lambda>matched emoteName. Inr emoteName) t2 = Inr text"
    by (auto simp: parseText_def Let_def split: sum.splits)
  have "(t1 = []) = (?t0 = [])"
    using t1 by (rule replace_regex_empty_iff) (auto simp: utf16_def)
  moreover have "(t2 = []) = (t1 = [])"
    using t2 by (rule replace_regex_empty_iff)
      (auto simp: channelName_def utf16_def split: option.splits)
  moreover have "(text = []) = (t2 = [])"
    using t3 by (rule replace_regex_empty_iff)
      (auto simp: re_emote_def Let_def utf16_def split: if_splits)
  ultimately show ?thesis
    by (simp add: foldl_replaceMention_empty_iff)
qed

text \<open>
  C8. For a relayed message whose transformed text is no command: the transformed text is
  empty exactly when the body is; \<^verbatim>\<open>sendToIRC\<close> says the body line first if the body is not
  empty, and then one line for each attachment URL in the order of the attachments, each
  line headed by the displayed name of the author; for an empty body it says the attachment
  lines only.
\<close>

theorem body_and_attachments:
  assumes b: "Bot lc opts = Inr b"
    and other: "user_id (author msg) \<noteq> user_id (client_user cl)"
    and mapped: "map_of (channelMapping b) (utf16 ''#'' @ channel_name (message_channel msg)) = Some ircChannel"
    and parsed: "parseText cl msg = Inr text"
    and plain: "\<not> isCommandMessage b text"
  shows "(text = []) = (content msg = [])
       \<and> sendToIRC b cl msg =
           ((if content msg = [] then []
             else [Say ircChannel (utf16 ''<''
                     @ displayUsername b (getDiscordNicknameOnServer (author msg) (message_guild msg))
                     @ utf16 ''> '' @ text)])
            @ map (\<lambda>url. Say ircChannel (utf16 ''<''
                     @ displayUsername b (getDiscordNicknameOnServer (author msg) (message_guild msg))
                     @ utf16 ''> '' @ url))
                (attachments msg),
            None)"
proof -
  have ne: "ircChannel \<noteq> []"
    using b mapped by (rule channelMapping_lookup_nonempty)
  have e: "(text = []) = (content msg = [])"
    using parsed by (rule parseText_empty_iff)
  show ?thesis
    using other ne plain e by (simp add: sendToIRC_def mapped parsed Let_def)
qed

theorem body_and_attachments_witness:
  "sendToIRC example_bot example_client (example_message (utf16 ''Look!'') [utf16 ''https://image/url.jpg'']) =
     ([Say (utf16 ''#ops'') (utf16 ''<'' @ [0x03] @ utf16 ''09testuser'' @ [0x0F] @ utf16 ''> Look!''),
       Say (utf16 ''#ops'') (utf16 ''<'' @ [0x03] @ utf16 ''09testuser'' @ [0x0F] @ utf16 ''> https://image/url.jpg'')], None)
   \<and> sendToIRC example_bot example_client (example_message [] [utf16 ''https://image/url.jpg'']) =
     ([Say (utf16 ''#ops'') (utf16 ''<'' @ [0x03] @ utf16 ''09testuser'' @ [0x0F] @ utf16 ''> https://image/url.jpg'')], None)"
proof -
  let ?m = "example_message (utf16 ''Look!'') [utf16 ''https://image/url.jpg'']"
  let ?e = "example_message [] [utf16 ''https://image/url.jpg'']"
  have other: "user_id (author ?m) \<noteq> user_id (client_user example_client)"
    "user_id (author ?e) \<noteq> user_id (client_user example_client)"
    by (simp_all add: eval_defs)
  have mapped: "map_of (channelMapping example_bot) (utf16 ''#'' @ channel_name (message_channel ?m)) = Some (utf16 ''#ops'')"
    "map_of (channelMapping example_bot) (utf16 ''#'' @ channel_name (message_channel ?e)) = Some (utf16 ''#ops'')"
    by (simp_all add: eval_defs)
  have plain: "\<not> isCommandMessage example_bot (utf16 ''Look!'')" "\<not> isCommandMessage example_bot []"
    by (simp_all add: eval_defs)
  have shown: "displayUsername example_bot (getDiscordNicknameOnServer (author ?m) (message_guild ?m))
         = [0x03] @ utf16 ''09testuser'' @ [0x0F]"
     "displayUsername example_bot (getDiscordNicknameOnServer (author ?e) (message_guild ?e))
         = [0x03] @ utf16 ''09testuser'' @ [0x0F]"
    by (simp_all add: eval_defs)
  have c: "content ?m \<noteq> []" "content ?e = []" "attachments ?m = [utf16 ''https://image/url.jpg'']"
      "attachments ?e = [utf16 ''https://image/url.jpg'']"
    by (simp_all add: eval_defs)
  from body_and_attachments [OF Bot_example other(1) mapped(1) parseText_look plain(1)]
    body_and_attachments [OF Bot_example other(2) mapped(2) parseText_empty plain(2)]
  show ?thesis
    unfolding shown using c by (simp add: utf16_def)
qed


section \<open>The colour of a nickname\<close>

text \<open>
  C9. The colour of a name that is not empty is the entry of the twelve \<^verbatim>\<open>NICK_COLORS\<close> at the
  index (first code unit of the name + number of code units of the name) mod 12. It is a
  function of the name alone; each of the twelve is a colour \<^verbatim>\<open>irc.colors.wrap\<close> knows, so the
  name is shown between that colour's code and the reset code when colours are on.
\<close>

theorem nick_color:
  assumes "name \<noteq> []"
  shows "length NICK_COLORS = 12
       \<and> colorIndex name = Some ((unat (hd name) + length name) mod 12)
       \<and> nickColor name = Some (NICK_COLORS ! ((unat (hd name) + length name) mod 12))
       \<and> (\<exists>code. map_of irc_colors_codes (NICK_COLORS ! ((unat (hd name) + length name) mod 12)) = Some code
              \<and> displayUsername b name = (if ircNickColor b then code @ name @ [0x0F] else name))"
proof -
  have len: "length NICK_COLORS = 12"
    by (simp add: NICK_COLORS_def)
  have idx: "colorIndex name = Some ((unat (hd name) + length name) mod 12)"
    using assms by (cases name) (simp_all add: colorIndex_def len)
  have col: "nickColor name = Some (NICK_COLORS ! ((unat (hd name) + length name) mod 12))"
    by (simp add: nickColor_def idx)
  have "(unat (hd name) + length name) mod 12 < 12"
    by simp
  then obtain code where
    code: "map_of irc_colors_codes (NICK_COLORS ! ((unat (hd name) + length name) mod 12)) = Some code"
    using NICK_COLORS_codes by blast
  have "displayUsername b name = (if ircNickColor b then code @ name @ [0x0F] else name)"
    by (simp add: displayUsername_def irc_colors_wrap_def col code)
  with len idx col code show ?thesis
    by blast
qed

theorem nick_color_witness:
  "colorIndex (utf16 ''testuser'') = Some 4 \<and> nickColor (utf16 ''testuser'') = Some ''light_green''"
proof -
  have ne: "utf16 ''testuser'' \<noteq> []"
    by (simp add: utf16_def)
  have i: "(unat (hd (utf16 ''testuser'')) + length (utf16 ''testuser'')) mod 12 = 4"
    by (simp add: utf16_def)
  have c: "NICK_COLORS ! 4 = ''light_green''"
    by (simp add: NICK_COLORS_def)
  from nick_color [OF ne, of b] show ?thesis
    unfolding i c by blast
qed


section \<open>Mentions in a Discord message\<close>

text \<open>
  C3. \<^verbatim>\<open>parseText\<close> replaces only the first \<^verbatim>\<open><@id>\<close> of a mentioned user: \<^verbatim>\<open>String.prototype.replace\<close>
  with a string as the pattern stops after one occurrence. In the body
  \<^verbatim>\<open><@123> hi <@123>\<close> the second mention stays as it is.
\<close>

theorem parseText_repeated_mention:
  "parseText example_client repeated_mention = Inr (utf16 ''@testuser hi <@123>'')"
  by (simp add: eval_defs repeated_mention_def)


section \<open>Channel references in a Discord message\<close>

lemma utf16_simps [simp]:
  "utf16 ''<#'' = [0x3C, 0x23]" "utf16 ''>'' = [0x3E]" "utf16 '' '' = [0x20]" "utf16 ''#'' = [0x23]"
  "utf16 ''<@'' = [0x3C, 0x40]" "utf16 ''<@!'' = [0x3C, 0x40, 0x21]" "utf16 ''<@&'' = [0x3C, 0x40, 0x26]"
  "utf16 ''@'' = [0x40]"
  by (simp_all add: utf16_def)

lemma not_digit [simp]: "\<not> isDigit 0x3E" "\<not> isDigit 0x3C" "\<not> isDigit 0x23" "\<not> isDigit 0x40"
  "\<not> isDigit 0x0A" "\<not> isDigit 0x0D" "\<not> isDigit 0x21" "\<not> isDigit 0x26"
  by (simp_all add: isDigit_def)

lemma re_channel_token:
  assumes "ds \<noteq> []" and "list_all isDigit ds"
  shows "re_channel (0x3C # 0x23 # ds @ 0x3E # post) = Some (length ds + 3, ds)"
proof -
  have "takeWhile isDigit (ds @ 0x3E # post) = ds"
    using assms(2) by (simp add: takeWhile_append2 list_all_iff)
  moreover have "dropWhile isDigit (ds @ 0x3E # post) = 0x3E # post"
    using assms(2) by (simp add: dropWhile_append2 list_all_iff)
  ultimately show ?thesis
    using assms(1) by (simp add: re_channel_def Let_def)
qed

lemma re_channel_SomeD:
  assumes "re_channel s = Some (n, g)"
  shows "\<exists>r. s = 0x3C # 0x23 # g @ 0x3E # r \<and> n = length g + 3 \<and> g \<noteq> [] \<and> list_all isDigit g"
proof -
  from assms have p: "prefix [0x3C, 0x23] s"
    by (auto simp: re_channel_def split: if_splits)
  then obtain s' where s: "s = 0x3C # 0x23 # s'"
    by (auto simp: prefix_def)
  from assms have g: "g = takeWhile isDigit s'" and n: "n = length g + 3" and ne: "g \<noteq> []"
    and q: "prefix [0x3E] (dropWhile isDigit s')"
    by (auto simp: re_channel_def Let_def s split: if_splits)
  from q obtain r where r: "dropWhile isDigit s' = 0x3E # r"
    by (auto simp: prefix_def)
  have "s' = takeWhile isDigit s' @ dropWhile isDigit s'"
    by simp
  then have "s' = g @ 0x3E # r"
    by (simp only: g r)
  moreover have "list_all isDigit g"
    unfolding g list_all_iff by (auto dest: set_takeWhileD)
  ultimately show ?thesis
    using s n ne by blast
qed

lemma replace_regex_channel_unresolved:
  assumes ds: "ds \<noteq> []" "list_all isDigit ds"
    and fail: "\<And>m. f m ds = Inl TypeError"
    and errs: "\<And>m g e. f m g = Inl e \<Longrightarrow> e = TypeError"
  shows "replace_regex re_channel f (pre @ 0x3C # 0x23 # ds @ 0x3E # post) = Inl TypeError"
proof (induction "length pre" arbitrary: pre rule: less_induct)
  case less
  show ?case
  proof (cases pre)
    case Nil
    then show ?thesis
      using re_channel_token [OF ds, of post] fail by simp
  next
    case (Cons c pre')
    let ?s = "pre @ 0x3C # 0x23 # ds @ 0x3E # post"
    show ?thesis
    proof (cases "re_channel ?s")
      case None
      have "replace_regex re_channel f (pre' @ 0x3C # 0x23 # ds @ 0x3E # post) = Inl TypeError"
        using less [of pre'] Cons by simp
      then show ?thesis
        using None Cons by simp
    next
      case (Some a)
      obtain n g where a: "a = (n, g)" by (cases a)
      from Some a obtain r where s: "?s = 0x3C # 0x23 # g @ 0x3E # r" and n: "n = length g + 3"
        and g: "g \<noteq> []" "list_all isDigit g"
        by (blast dest: re_channel_SomeD)
      have "n \<le> length pre"
      proof (rule ccontr)
        assume "\<not> n \<le> length pre"
        then have lt: "length pre < n" by simp
        have "?s ! length pre = 0x3C"
          by (simp add: nth_append)
        moreover have "0 < length pre" using Cons by simp
        moreover have "\<And>k. 0 < k \<Longrightarrow> k < n \<Longrightarrow> (0x3C # 0x23 # g @ 0x3E # r) ! k \<noteq> 0x3C"
        proof -
          fix k assume k: "0 < k" "k < n"
          show "(0x3C # 0x23 # g @ 0x3E # r) ! k \<noteq> 0x3C"
          proof (cases "k = 1")
            case True
            then show ?thesis by simp
          next
            case False
            with k obtain j where j: "k = Suc (Suc j)" by (cases k; cases "k - 1") auto
            with k n have "j \<le> length g" by simp
            then show ?thesis
              using g(2) by (cases "j < length g") (auto simp: j nth_append list_all_length)
          qed
        qed
        ultimately show False
          using lt s by metis
      qed
      then have d: "drop n ?s = drop n pre @ 0x3C # 0x23 # ds @ 0x3E # post"
        by simp
      have n0: "n \<noteq> 0" using n by simp
      have ih: "replace_regex re_channel f (drop n pre @ 0x3C # 0x23 # ds @ 0x3E # post) = Inl TypeError"
        using less [of "drop n pre"] n0 Cons by simp
      show ?thesis
      proof (cases "f (take n ?s) g")
        case (Inl e)
        then have "e = TypeError" by (rule errs)
        then show ?thesis
          using Some a Inl Cons by simp
      next
        case (Inr t)
        have "replace_regex re_channel f ?s =
              (case replace_regex re_channel f (drop n ?s) of Inl e \<Rightarrow> Inl e | Inr t' \<Rightarrow> Inr (t @ t'))"
          using Some a Inr n0 Cons by simp
        then show ?thesis
          by (simp only: d ih sum.case)
      qed
    qed
  qed
qed

text \<open>The replacements before the channel references keep a reference where it is: a
  mention of a user starts with \<^verbatim>\<open><@\<close> and cannot overlap it, and it holds no line break.\<close>

lemma indexOf_SomeD:
  "indexOf pat s = Some i \<Longrightarrow> s = take i s @ pat @ drop (i + length pat) s"
proof (induction s arbitrary: i)
  case Nil
  then show ?case by (simp split: if_splits)
next
  case (Cons c cs)
  show ?case
  proof (cases "prefix pat (c # cs)")
    case True
    with Cons.prems have "i = 0" by simp
    with True show ?thesis by (auto simp: prefix_def)
  next
    case False
    with Cons.prems obtain j where j: "indexOf pat cs = Some j" and i: "i = Suc j"
      by auto
    from Cons.IH [OF j] show ?thesis
      by (simp add: i)
  qed
qed

text \<open>Two words that start with \<open><\<close>, hold no other \<open><\<close> and differ in their second
  code unit do not overlap in a text.\<close>

lemma occurrences_apart:
  assumes s: "a @ (0x3C # x # p) @ b = c @ (0x3C # y # t) @ (d :: jsstring)"
    and p: "0x3C \<notin> set p" "x \<noteq> 0x3C"
    and t: "0x3C \<notin> set t" "y \<noteq> 0x3C"
    and xy: "x \<noteq> y"
  shows "(\<exists>m. c = a @ (0x3C # x # p) @ m \<and> b = m @ (0x3C # y # t) @ d)
       \<or> (\<exists>m. a = c @ (0x3C # y # t) @ m \<and> d = m @ (0x3C # x # p) @ b)"
proof -
  from s obtain us where
    "(a = c @ us \<and> us @ (0x3C # x # p) @ b = (0x3C # y # t) @ d)
     \<or> (a @ us = c \<and> (0x3C # x # p) @ b = us @ (0x3C # y # t) @ d)"
    by (auto simp: append_eq_append_conv2)
  then show ?thesis
  proof
    assume h: "a = c @ us \<and> us @ (0x3C # x # p) @ b = (0x3C # y # t) @ d"
    then have e: "us @ (0x3C # x # p @ b) = (0x3C # y # t) @ d" by simp
    from e [unfolded append_eq_append_conv2] obtain vs where
      "(us = (0x3C # y # t) @ vs \<and> vs @ (0x3C # x # p @ b) = d)
       \<or> (us @ vs = 0x3C # y # t \<and> 0x3C # x # p @ b = vs @ d)"
      by blast
    then show ?thesis
    proof
      assume "us = (0x3C # y # t) @ vs \<and> vs @ (0x3C # x # p @ b) = d"
      with h show ?thesis by auto
    next
      assume v: "us @ vs = 0x3C # y # t \<and> 0x3C # x # p @ b = vs @ d"
      show ?thesis
      proof (cases vs)
        case Nil
        with v h show ?thesis by auto
      next
        case (Cons z zs)
        with v have z: "z = 0x3C" by simp
        show ?thesis
        proof (cases us)
          case Nil
          with v Cons have "0x3C # y # t = z # zs" by simp
          with v Cons xy show ?thesis by (cases zs) auto
        next
          case (Cons u us')
          with v \<open>vs = z # zs\<close> have "0x3C \<in> set (y # t)"
            by (metis z append_Cons in_set_conv_decomp list.inject)
          with t show ?thesis by simp
        qed
      qed
    qed
  next
    assume h: "a @ us = c \<and> (0x3C # x # p) @ b = us @ (0x3C # y # t) @ d"
    then have e: "(0x3C # x # p) @ b = us @ (0x3C # y # t @ d)" by simp
    from e [unfolded append_eq_append_conv2] obtain vs where
      "(0x3C # x # p = us @ vs \<and> vs @ b = 0x3C # y # t @ d)
       \<or> ((0x3C # x # p) @ vs = us \<and> b = vs @ (0x3C # y # t @ d))"
      by blast
    then show ?thesis
    proof
      assume "(0x3C # x # p) @ vs = us \<and> b = vs @ (0x3C # y # t @ d)"
      with h show ?thesis by auto
    next
      assume v: "0x3C # x # p = us @ vs \<and> vs @ b = 0x3C # y # t @ d"
      show ?thesis
      proof (cases vs)
        case Nil
        with v h show ?thesis by auto
      next
        case (Cons z zs)
        with v have z: "z = 0x3C" by simp
        show ?thesis
        proof (cases us)
          case Nil
          with v Cons have "0x3C # x # p = z # zs" by simp
          with v Cons xy show ?thesis by (cases zs) auto
        next
          case (Cons u us')
          with v \<open>vs = z # zs\<close> have "0x3C \<in> set (x # p)"
            by (metis z append_Cons in_set_conv_decomp list.inject)
          with p show ?thesis by simp
        qed
      qed
    qed
  qed
qed

lemma replace_string_keeps:
  assumes p: "0x3C \<notin> set p" "x \<noteq> 0x3C" and t: "0x3C \<notin> set t" "y \<noteq> 0x3C" and xy: "x \<noteq> y"
  shows "\<exists>c' d'. replace_string (c @ (0x3C # y # t) @ d) (0x3C # x # p) replacement = c' @ (0x3C # y # t) @ d'"
proof (cases "indexOf (0x3C # x # p) (c @ (0x3C # y # t) @ d)")
  case None
  then show ?thesis
    unfolding replace_string_def by (simp only: option.case) blast
next
  case (Some i)
  let ?s = "c @ (0x3C # y # t) @ d"
  let ?pat = "0x3C # x # p"
  define a where "a = take i ?s"
  define b where "b = drop (i + length ?pat) ?s"
  from indexOf_SomeD [OF Some] have "a @ ?pat @ b = ?s"
    by (simp only: a_def b_def)
  from occurrences_apart [OF this p t xy]
  have "\<exists>c' d'. a @ getSubstitution ?pat a b replacement @ b = c' @ (0x3C # y # t) @ d'"
  proof
    assume "\<exists>m. c = a @ ?pat @ m \<and> b = m @ (0x3C # y # t) @ d"
    then obtain m where "b = m @ (0x3C # y # t) @ d" by blast
    then have "a @ getSubstitution ?pat a b replacement @ b
               = (a @ getSubstitution ?pat a b replacement @ m) @ (0x3C # y # t) @ d"
      by simp
    then show ?thesis by blast
  next
    assume "\<exists>m. a = c @ (0x3C # y # t) @ m \<and> d = m @ ?pat @ b"
    then obtain m where "a = c @ (0x3C # y # t) @ m" by blast
    then have "a @ getSubstitution ?pat a b replacement @ b
               = c @ (0x3C # y # t) @ (m @ getSubstitution ?pat a b replacement @ b)"
      by simp
    then show ?thesis by blast
  qed
  moreover have "replace_string ?s ?pat replacement = a @ getSubstitution ?pat a b replacement @ b"
    unfolding replace_string_def Some a_def b_def by (simp add: Let_def)
  ultimately show ?thesis
    by simp
qed

lemma replaceMention_keeps:
  assumes id: "list_all isDigit (user_id u)" and ds: "list_all isDigit ds"
  shows "\<exists>c' d'. replaceMention g (c @ (0x3C # 0x23 # ds @ [0x3E]) @ d) u = c' @ (0x3C # 0x23 # ds @ [0x3E]) @ d'"
proof -
  have t: "0x3C \<notin> set (ds @ [0x3E])"
    using ds by (auto simp: list_all_iff)
  have i: "0x3C \<notin> set (user_id u)"
    using id by (auto simp: list_all_iff)
  let ?n = "getDiscordNicknameOnServer u g"
  let ?tok = "0x3C # 0x23 # ds @ [0x3E]"
  have p1: "0x3C \<notin> set (user_id u @ [0x3E])" and p2: "0x3C \<notin> set (0x21 # user_id u @ [0x3E])"
    and p3: "0x3C \<notin> set (0x26 # user_id u @ [0x3E])"
    using i by simp_all
  have "\<exists>c1 d1. replace_string (c @ ?tok @ d) (0x3C # 0x40 # user_id u @ [0x3E]) (0x40 # ?n) = c1 @ ?tok @ d1"
    by (rule replace_string_keeps) (use p1 t in simp_all)
  then obtain c1 d1 where s1: "replace_string (c @ ?tok @ d) (0x3C # 0x40 # user_id u @ [0x3E]) (0x40 # ?n) = c1 @ ?tok @ d1"
    by blast
  have "\<exists>c2 d2. replace_string (c1 @ ?tok @ d1) (0x3C # 0x40 # 0x21 # user_id u @ [0x3E]) (0x40 # ?n) = c2 @ ?tok @ d2"
    by (rule replace_string_keeps) (use p2 t in simp_all)
  then obtain c2 d2 where s2: "replace_string (c1 @ ?tok @ d1) (0x3C # 0x40 # 0x21 # user_id u @ [0x3E]) (0x40 # ?n) = c2 @ ?tok @ d2"
    by blast
  have "\<exists>c3 d3. replace_string (c2 @ ?tok @ d2) (0x3C # 0x40 # 0x26 # user_id u @ [0x3E]) (0x40 # ?n) = c3 @ ?tok @ d3"
    by (rule replace_string_keeps) (use p3 t in simp_all)
  then obtain c3 d3 where s3: "replace_string (c2 @ ?tok @ d2) (0x3C # 0x40 # 0x26 # user_id u @ [0x3E]) (0x40 # ?n) = c3 @ ?tok @ d3"
    by blast
  have "replaceMention g (c @ ?tok @ d) u = c3 @ ?tok @ d3"
    unfolding replaceMention_def Let_def utf16_simps
    using s1 s2 s3 by simp
  then show ?thesis by blast
qed

lemma foldl_replaceMention_keeps:
  assumes "list_all (\<lambda>u. list_all isDigit (user_id u)) us" and "list_all isDigit ds"
  shows "\<exists>c' d'. foldl (replaceMention g) (c @ (0x3C # 0x23 # ds @ [0x3E]) @ d) us = c' @ (0x3C # 0x23 # ds @ [0x3E]) @ d'"
  using assms(1)
proof (induction us arbitrary: c d)
  case Nil
  then show ?case by simp blast
next
  case (Cons u us)
  then have u: "list_all isDigit (user_id u)" and us: "list_all (\<lambda>u. list_all isDigit (user_id u)) us"
    by simp_all
  from replaceMention_keeps [OF u assms(2), of g c d] obtain c1 d1 where
    "replaceMention g (c @ (0x3C # 0x23 # ds @ [0x3E]) @ d) u = c1 @ (0x3C # 0x23 # ds @ [0x3E]) @ d1"
    by blast
  with Cons.IH [OF us, of c1 d1] show ?case
    by simp
qed

lemma replace_regex_total:
  assumes "\<And>m g. \<exists>r. f m g = Inr r"
  shows "\<exists>t. replace_regex re f s = Inr t"
proof (induction "length s" arbitrary: s rule: less_induct)
  case less
  show ?case
  proof (cases s)
    case Nil
    then show ?thesis by simp
  next
    case (Cons c cs)
    from less [of cs] Cons obtain t1 where t1: "replace_regex re f cs = Inr t1"
      by auto
    show ?thesis
    proof (cases "re (c # cs)")
      case None
      then show ?thesis using Cons t1 by simp
    next
      case (Some a)
      obtain n g where a: "a = (n, g)" by (cases a)
      from assms obtain r where r: "f (take n (c # cs)) g = Inr r" by blast
      show ?thesis
      proof (cases "n = 0")
        case True
        then show ?thesis using Cons Some a r t1 by simp
      next
        case False
        then have "length (drop n (c # cs)) < length s" using Cons by simp
        from less [OF this] obtain t2 where "replace_regex re f (drop n (c # cs)) = Inr t2"
          by blast
        then show ?thesis using Cons Some a r False by simp
      qed
    qed
  qed
qed

lemma re_newline_None: "x \<noteq> 0x0A \<Longrightarrow> x \<noteq> 0x0D \<Longrightarrow> re_newline (x # s) = None"
  by (cases s) simp_all

lemma re_newline_SomeD:
  "re_newline s = Some (n, g) \<Longrightarrow> n = 1 \<and> s \<noteq> [] \<or> n = 2 \<and> (\<exists>r. s = 0x0D # 0x0A # r)"
  by (cases s rule: re_newline.cases) (auto split: if_splits)

lemma newline_through:
  assumes "0x0A \<notin> set tok" and "0x0D \<notin> set tok"
    and "replace_regex re_newline f d = Inr t"
  shows "replace_regex re_newline f (tok @ d) = Inr (tok @ t)"
  using assms(1,2)
proof (induction tok)
  case Nil
  then show ?case by (simp add: assms(3))
next
  case (Cons x tok)
  then have "re_newline (x # tok @ d) = None"
    by (simp add: re_newline_None)
  with Cons show ?case by simp
qed

lemma newline_keeps:
  assumes tok: "tok \<noteq> []" "0x0A \<notin> set tok" "0x0D \<notin> set tok"
  shows "\<exists>c' d'. replace_regex re_newline (\<lambda>matched grp. Inr [0x20]) (c @ tok @ d) = Inr (c' @ tok @ d')"
proof (induction "length c" arbitrary: c rule: less_induct)
  case less
  let ?f = "\<lambda>matched grp. Inr [0x20] :: error + jsstring"
  show ?case
  proof (cases c)
    case Nil
    obtain t where "replace_regex re_newline ?f d = Inr t"
      using replace_regex_total [of ?f re_newline d] by auto
    from newline_through [OF tok(2,3) this] Nil show ?thesis
      by (metis append_Nil)
  next
    case (Cons x c')
    show ?thesis
    proof (cases "re_newline (c @ tok @ d)")
      case None
      from less [of c'] Cons obtain c1 d1 where
        "replace_regex re_newline ?f (c' @ tok @ d) = Inr (c1 @ tok @ d1)" by auto
      then have "replace_regex re_newline ?f (c @ tok @ d) = Inr ((x # c1) @ tok @ d1)"
        using None Cons by simp
      then show ?thesis by blast
    next
      case (Some a)
      obtain n g where a: "a = (n, g)" by (cases a)
      from Some a have "n = 1 \<and> c @ tok @ d \<noteq> [] \<or> n = 2 \<and> (\<exists>r. c @ tok @ d = 0x0D # 0x0A # r)"
        by (blast dest: re_newline_SomeD)
      then have n: "n \<noteq> 0" "n \<le> length c"
      proof -
        assume h: "n = 1 \<and> c @ tok @ d \<noteq> [] \<or> n = 2 \<and> (\<exists>r. c @ tok @ d = 0x0D # 0x0A # r)"
        then show "n \<noteq> 0" by auto
        from h show "n \<le> length c"
        proof
          assume "n = 1 \<and> c @ tok @ d \<noteq> []"
          then show ?thesis using Cons by simp
        next
          assume h2: "n = 2 \<and> (\<exists>r. c @ tok @ d = 0x0D # 0x0A # r)"
          then obtain r where r: "c @ tok @ d = 0x0D # 0x0A # r" by blast
          have "c' \<noteq> []"
          proof
            assume "c' = []"
            with r Cons have "tok @ d = 0x0A # r" by simp
            with tok(1) have "hd tok = 0x0A" by (cases tok) auto
            with tok(1,2) show False by (cases tok) auto
          qed
          then show ?thesis using h2 Cons by (cases c') auto
        qed
      qed
      then have "length (drop n c) < length c" using Cons by simp
      from less [OF this] obtain c1 d1 where
        ih: "replace_regex re_newline ?f (drop n c @ tok @ d) = Inr (c1 @ tok @ d1)" by blast
      have "drop n (c @ tok @ d) = drop n c @ tok @ d"
        using n(2) by simp
      then have "replace_regex re_newline ?f (c @ tok @ d) = Inr (([0x20] @ c1) @ tok @ d1)"
        using Some a n(1) Cons ih by simp
      then show ?thesis by blast
    qed
  qed
qed

text \<open>
  C4, as the code has it. If the body of a Discord message holds a channel reference
  \<^verbatim>\<open><#id>\<close> (\<open>id\<close> a run of digits) whose id is the id of no channel of the client, and the
  ids of the mentioned users are runs of digits, then \<^verbatim>\<open>parseText\<close> throws a TypeError;
  \<^verbatim>\<open>sendToIRC\<close> calls it before it says anything, so no line of the message is sent, whole or
  in part; and for a message that would have been relayed the error leaves \<^verbatim>\<open>sendToIRC\<close> and
  the listener of the message event, which passes on what \<^verbatim>\<open>sendToIRC\<close> does.
\<close>

theorem unresolved_channel_reference:
  assumes body: "content msg = pre @ utf16 ''<#'' @ ds @ utf16 ''>'' @ post"
    and ds: "ds \<noteq> []" "list_all isDigit ds"
    and unresolved: "find (\<lambda>ch. channel_id ch = ds) (client_channels cl) = None"
    and ids: "list_all (\<lambda>u. list_all isDigit (user_id u)) (mentions_users msg)"
  shows "parseText cl msg = Inl TypeError
       \<and> sendToIRC b cl msg =
           ([], if user_id (author msg) \<noteq> user_id (client_user cl)
                   \<and> (case map_of (channelMapping b) (utf16 ''#'' @ channel_name (message_channel msg)) of
                        None \<Rightarrow> False | Some ircChannel \<Rightarrow> ircChannel \<noteq> [])
                then Some TypeError else None)
       \<and> listener lc b cl (DiscordMessage msg) = sendToIRC b cl msg"
proof -
  let ?tok = "0x3C # 0x23 # ds @ [0x3E]"
  have c: "content msg = pre @ ?tok @ post"
    using body by simp
  from foldl_replaceMention_keeps [OF ids ds(2), of "message_guild msg" pre post]
  obtain c1 d1 where
    t0: "foldl (replaceMention (message_guild msg)) (content msg) (mentions_users msg) = c1 @ ?tok @ d1"
    unfolding c by blast
  have "0x0A \<notin> set ?tok" and "0x0D \<notin> set ?tok"
    using ds(2) by (auto simp: list_all_iff)
  from newline_keeps [OF _ this, of c1 d1] obtain c2 d2 where
    t1: "replace_regex re_newline (\<lambda>matched grp. Inr [0x20]) (c1 @ ?tok @ d1) = Inr (c2 @ ?tok @ d2)"
    by auto
  have "replace_regex re_channel (channelName cl) (c2 @ 0x3C # 0x23 # ds @ 0x3E # d2) = Inl TypeError"
    using ds
  proof (rule replace_regex_channel_unresolved)
    show "\<And>m. channelName cl m ds = Inl TypeError"
      by (simp add: channelName_def unresolved)
    show "\<And>m g e. channelName cl m g = Inl e \<Longrightarrow> e = TypeError"
      by (auto simp: channelName_def split: option.splits)
  qed
  with t0 t1 have p: "parseText cl msg = Inl TypeError"
    by (simp add: parseText_def Let_def)
  have s: "sendToIRC b cl msg =
           ([], if user_id (author msg) \<noteq> user_id (client_user cl)
                   \<and> (case map_of (channelMapping b) (utf16 ''#'' @ channel_name (message_channel msg)) of
                        None \<Rightarrow> False | Some ircChannel \<Rightarrow> ircChannel \<noteq> [])
                then Some TypeError else None)"
    by (simp add: sendToIRC_def p Let_def split: option.splits)
  from p s show ?thesis
    by simp
qed

theorem unresolved_channel_reference_witness:
  "parseText example_client unresolved_reference = Inl TypeError
   \<and> sendToIRC example_bot example_client unresolved_reference = ([], Some TypeError)"
proof -
  have body: "content unresolved_reference = utf16 ''see '' @ utf16 ''<#'' @ utf16 ''5555'' @ utf16 ''>'' @ utf16 '' now''"
    by (simp add: unresolved_reference_def example_message_def utf16_def)
  have ds: "utf16 ''5555'' \<noteq> []" "list_all isDigit (utf16 ''5555'')"
    by (simp_all add: utf16_def isDigit_def)
  have unresolved: "find (\<lambda>ch. channel_id ch = utf16 ''5555'') (client_channels example_client) = None"
    by (simp add: eval_defs)
  have ids: "list_all (\<lambda>u. list_all isDigit (user_id u)) (mentions_users unresolved_reference)"
    by (simp add: unresolved_reference_def example_message_def)
  have relayed: "user_id (author unresolved_reference) \<noteq> user_id (client_user example_client)"
    "map_of (channelMapping example_bot) (utf16 ''#'' @ channel_name (message_channel unresolved_reference)) = Some (utf16 ''#ops'')"
    "utf16 ''#ops'' \<noteq> []"
    by (simp_all add: unresolved_reference_def eval_defs)
  from unresolved_channel_reference [OF body ds unresolved ids, of example_bot] relayed
  show ?thesis
    by simp
qed

text \<open>
  The failure is not contained by the bot. For that, the listener of the message event
  would have to end normally, so that whoever emitted the event goes on with the next one;
  but neither \<^verbatim>\<open>sendToIRC\<close> nor the listener has a handler for the exception, and the
  listener ends with it.
\<close>

theorem unresolved_channel_reference_counterexample:
  "snd (listener basic_latin example_bot example_client (DiscordMessage unresolved_reference)) = Some TypeError"
  by (simp add: unresolved_reference_def eval_defs)


section \<open>Mentions in an IRC message\<close>

lemma space_no_word: "isWhiteSpace c \<Longrightarrow> \<not> isWordChar c"
  by (auto simp: isWhiteSpace_def isWordChar_def isDigit_def word_le_nat_alt)

lemma at_no_space [simp]: "\<not> isWhiteSpace 0x40"
  by (simp add: isWhiteSpace_def)

lemma find_last:
  "1 \<le> m \<Longrightarrow> m \<le> n \<Longrightarrow> P m \<Longrightarrow> (\<And>k. m < k \<Longrightarrow> k \<le> n \<Longrightarrow> \<not> P k) \<Longrightarrow>
   find P (rev [1 ..< Suc n]) = Some m"
proof (induction n)
  case 0
  then show ?case by simp
next
  case (Suc n)
  show ?case
  proof (cases "m = Suc n")
    case True
    with Suc.prems show ?thesis by simp
  next
    case False
    with Suc.prems have "m \<le> n" and "\<not> P (Suc n)" by auto
    moreover from this Suc have "find P (rev [1 ..< Suc n]) = Some m" by auto
    ultimately show ?thesis by simp
  qed
qed

lemma find_none:
  "(\<And>k. 1 \<le> k \<Longrightarrow> k \<le> n \<Longrightarrow> \<not> P k) \<Longrightarrow> find P (rev [1 ..< Suc n]) = None"
  by (auto simp: find_None_iff)

text \<open>The run after the \<open>@\<close>, and where the expression ends in it.\<close>

lemma run_of_word:
  assumes "\<forall>c\<in>set w. \<not> isWhiteSpace c" and "post = [] \<or> isWhiteSpace (hd post)"
  shows "takeWhile (\<lambda>x. \<not> isWhiteSpace x) (w @ post) = w"
proof -
  have "takeWhile (\<lambda>x. \<not> isWhiteSpace x) post = []"
    using assms(2) by (cases post) auto
  with assms(1) show ?thesis
    by (simp add: takeWhile_append2)
qed

lemma re_mention_token:
  assumes tok: "tok \<noteq> []" "\<forall>c\<in>set tok. \<not> isWhiteSpace c" "isWordChar (last tok)"
    and trail: "\<forall>c\<in>set trail. \<not> isWordChar c \<and> \<not> isWhiteSpace c"
    and post: "post = [] \<or> isWhiteSpace (hd post)"
  shows "re_mention (0x40 # tok @ trail @ post) = Some (Suc (length tok), [])"
proof -
  let ?r = "tok @ trail @ post"
  have run: "takeWhile (\<lambda>x. \<not> isWhiteSpace x) ?r = tok @ trail"
    using run_of_word [of "tok @ trail" post] tok(2) trail post by auto
  have nw: "\<And>k. length tok \<le> k \<Longrightarrow> k \<le> length tok + length trail \<Longrightarrow> k < length ?r \<Longrightarrow>
             \<not> isWordChar (?r ! k)"
  proof -
    fix k assume k: "length tok \<le> k" "k \<le> length tok + length trail" "k < length ?r"
    show "\<not> isWordChar (?r ! k)"
    proof (cases "k < length tok + length trail")
      case True
      with k have "?r ! k = trail ! (k - length tok)" and "k - length tok < length trail"
        by (auto simp: nth_append)
      then show ?thesis using trail by (metis nth_mem)
    next
      case False
      with k have e: "k = length tok + length trail" and p: "post \<noteq> []"
        by auto
      have "?r ! k = hd post"
        using p by (simp add: e nth_append hd_conv_nth)
      with post p show ?thesis by (auto dest: space_no_word)
    qed
  qed
  have last: "?r ! (length tok - 1) = last tok"
    using tok(1) by (simp add: nth_append last_conv_nth)
  have at: "wordBoundary ?r (length tok)"
    using tok(1,3) nw [of "length tok"] last by (auto simp: wordBoundary_def)
  have after: "\<And>k. length tok < k \<Longrightarrow> k \<le> length tok + length trail \<Longrightarrow> \<not> wordBoundary ?r k"
  proof -
    fix k assume k: "length tok < k" "k \<le> length tok + length trail"
    then have "\<not> isWordChar (?r ! (k - 1))"
      using nw [of "k - 1"] by auto
    moreover have "k < length ?r \<Longrightarrow> \<not> isWordChar (?r ! k)"
      using nw [of k] k by auto
    ultimately show "\<not> wordBoundary ?r k"
      by (auto simp: wordBoundary_def)
  qed
  have "find (wordBoundary ?r) (rev [1 ..< Suc (length tok + length trail)]) = Some (length tok)"
    using tok(1) at after by (intro find_last) (auto simp: Suc_le_eq)
  then show ?thesis
    by (simp add: re_mention_def run Let_def del: upt_Suc)
qed

lemma re_mention_no_word:
  assumes run: "\<forall>c\<in>set run. \<not> isWordChar c \<and> \<not> isWhiteSpace c"
    and post: "post = [] \<or> isWhiteSpace (hd post)"
  shows "re_mention (x # run @ post) = None"
proof (cases "x = 0x40")
  case False
  then show ?thesis by (simp add: re_mention_def)
next
  case True
  let ?r = "run @ post"
  have r: "takeWhile (\<lambda>x. \<not> isWhiteSpace x) ?r = run"
    using run_of_word [of run post] run post by auto
  have nw: "\<And>k. k \<le> length run \<Longrightarrow> k < length ?r \<Longrightarrow> \<not> isWordChar (?r ! k)"
  proof -
    fix k assume k: "k \<le> length run" "k < length ?r"
    show "\<not> isWordChar (?r ! k)"
    proof (cases "k < length run")
      case True
      then have "?r ! k = run ! k" by (simp add: nth_append)
      with True show ?thesis using run by (metis nth_mem)
    next
      case False
      with k have e: "k = length run" and p: "post \<noteq> []" by auto
      have "?r ! k = hd post" using p by (simp add: e nth_append hd_conv_nth)
      with post p show ?thesis by (auto dest: space_no_word)
    qed
  qed
  have "\<And>k. 1 \<le> k \<Longrightarrow> k \<le> length run \<Longrightarrow> \<not> wordBoundary ?r k"
  proof -
    fix k assume k: "1 \<le> k" "k \<le> length run"
    then have "\<not> isWordChar (?r ! (k - 1))"
      using nw [of "k - 1"] by auto
    moreover have "k < length ?r \<Longrightarrow> \<not> isWordChar (?r ! k)"
      using nw [of k] k by auto
    ultimately show "\<not> wordBoundary ?r k"
      by (auto simp: wordBoundary_def)
  qed
  then have "find (wordBoundary ?r) (rev [1 ..< Suc (length run)]) = None"
    by (rule find_none)
  then show ?thesis
    by (simp add: re_mention_def True r Let_def del: upt_Suc)
qed

lemma re_mention_other: "c \<noteq> 0x40 \<Longrightarrow> re_mention (c # r) = None"
  by (simp add: re_mention_def)

lemma replace_regex_skip:
  assumes "\<And>i. i < length pre \<Longrightarrow> re (drop i pre @ rest) = None"
  shows "replace_regex re f (pre @ rest) =
         (case replace_regex re f rest of Inl e \<Rightarrow> Inl e | Inr t \<Rightarrow> Inr (pre @ t))"
  using assms
proof (induction pre)
  case Nil
  then show ?case by (simp split: sum.splits)
next
  case (Cons c pre)
  from Cons.prems [of 0] have "re (c # pre @ rest) = None" by simp
  moreover have "\<And>i. i < length pre \<Longrightarrow> re (drop i pre @ rest) = None"
    using Cons.prems [of "Suc _"] by simp
  ultimately show ?case
    using Cons.IH by (simp split: sum.splits)
qed

text \<open>Where every match in \<open>x\<close> ends in \<open>x\<close> and is found without looking into \<open>y\<close>, the
  two are replaced in apart.\<close>

lemma replace_regex_append:
  assumes "\<And>i. i < length x \<Longrightarrow> re (drop i x @ y) = re (drop i x)"
    and "\<And>i n g. i < length x \<Longrightarrow> re (drop i x) = Some (n, g) \<Longrightarrow> 0 < n \<and> i + n \<le> length x"
  shows "replace_regex re f (x @ y) =
         (case replace_regex re f x of
            Inl e \<Rightarrow> Inl e
          | Inr a \<Rightarrow> (case replace_regex re f y of Inl e \<Rightarrow> Inl e | Inr b \<Rightarrow> Inr (a @ b)))"
  using assms
proof (induction "length x" arbitrary: x rule: less_induct)
  case less
  show ?case
  proof (cases x)
    case Nil
    then show ?thesis by (simp split: sum.splits)
  next
    case (Cons c x')
    have same: "re (c # x' @ y) = re (c # x')"
      using less.prems(1) [of 0] Cons by simp
    have ih: "\<And>k. 0 < k \<Longrightarrow> k \<le> length x \<Longrightarrow>
        replace_regex re f (drop k x @ y) =
         (case replace_regex re f (drop k x) of
            Inl e \<Rightarrow> Inl e
          | Inr a \<Rightarrow> (case replace_regex re f y of Inl e \<Rightarrow> Inl e | Inr b \<Rightarrow> Inr (a @ b)))"
    proof -
      fix k assume k: "0 < k" "k \<le> length x"
      have l: "length (drop k x) < length x" using k Cons by simp
      show "replace_regex re f (drop k x @ y) =
         (case replace_regex re f (drop k x) of
            Inl e \<Rightarrow> Inl e
          | Inr a \<Rightarrow> (case replace_regex re f y of Inl e \<Rightarrow> Inl e | Inr b \<Rightarrow> Inr (a @ b)))"
      proof (rule less.hyps [OF l])
        fix i assume "i < length (drop k x)"
        then have i: "i + k < length x" by simp
        from less.prems(1) [OF i] show "re (drop i (drop k x) @ y) = re (drop i (drop k x))"
          by (simp add: add.commute)
      next
        fix i n g assume "i < length (drop k x)" and r: "re (drop i (drop k x)) = Some (n, g)"
        then have i: "i + k < length x" by simp
        from r have "re (drop (i + k) x) = Some (n, g)" by (simp add: add.commute)
        from less.prems(2) [OF i this] i show "0 < n \<and> i + n \<le> length (drop k x)"
          by auto
      qed
    qed
    show ?thesis
    proof (cases "re (c # x')")
      case None
      from ih [of 1] Cons have "replace_regex re f (x' @ y) =
         (case replace_regex re f x' of
            Inl e \<Rightarrow> Inl e
          | Inr a \<Rightarrow> (case replace_regex re f y of Inl e \<Rightarrow> Inl e | Inr b \<Rightarrow> Inr (a @ b)))"
        by simp
      then show ?thesis
        using None same Cons by (simp split: sum.splits)
    next
      case (Some a)
      obtain n g where a: "a = (n, g)" by (cases a)
      from less.prems(2) [of 0 n g] Some a Cons have n: "0 < n" "n \<le> length x"
        by simp_all
      have "take n (x @ y) = take n x" and "drop n (x @ y) = drop n x @ y"
        using n by simp_all
      then have t: "take n (c # x' @ y) = take n (c # x')"
        and d: "drop n (c # x' @ y) = drop n x @ y"
        unfolding Cons by simp_all
      show ?thesis
        using ih [OF n] Some a same n(1) t d Cons
        by (simp split: sum.splits)
    qed
  qed
qed

lemma takeWhile_stops: "x \<in> set xs \<Longrightarrow> \<not> P x \<Longrightarrow> length (takeWhile P xs) < length xs"
  by (induction xs) auto

lemma find_SomeD: "find P xs = Some x \<Longrightarrow> x \<in> set xs \<and> P x"
  by (induction xs) (auto split: if_splits)

lemma re_mention_local:
  assumes "s \<noteq> []" and "isWhiteSpace (last s)"
  shows "re_mention (s @ y) = re_mention s"
    and "re_mention s = Some (n, g) \<Longrightarrow> 0 < n \<and> n \<le> length s"
proof -
  obtain c r where s: "s = c # r" using assms(1) by (cases s) auto
  show "re_mention (s @ y) = re_mention s"
  proof (cases "c = 0x40")
    case False
    then show ?thesis by (simp add: s re_mention_def)
  next
    case True
    with assms(2) s have r: "r \<noteq> []" by auto
    with assms(2) s have "isWhiteSpace (last r)" by simp
    with r have ex: "last r \<in> set r" "\<not> \<not> isWhiteSpace (last r)" by auto
    have run: "takeWhile (\<lambda>x. \<not> isWhiteSpace x) (r @ y) = takeWhile (\<lambda>x. \<not> isWhiteSpace x) r"
      using ex by (rule takeWhile_append1)
    have len: "length (takeWhile (\<lambda>x. \<not> isWhiteSpace x) r) < length r"
      using ex by (rule takeWhile_stops)
    have "find (wordBoundary (r @ y)) (rev [1 ..< Suc (length (takeWhile (\<lambda>x. \<not> isWhiteSpace x) r))])
        = find (wordBoundary r) (rev [1 ..< Suc (length (takeWhile (\<lambda>x. \<not> isWhiteSpace x) r))])"
      using len by (intro find_cong) (auto simp: wordBoundary_def nth_append)
    then show ?thesis
      by (simp add: s re_mention_def True run Let_def del: upt_Suc)
  qed
  show "re_mention s = Some (n, g) \<Longrightarrow> 0 < n \<and> n \<le> length s"
  proof -
    assume m: "re_mention s = Some (n, g)"
    then have c: "c = 0x40" by (auto simp: s re_mention_def split: if_splits)
    with assms(2) s have r: "r \<noteq> []" by auto
    with assms(2) s have "isWhiteSpace (last r)" by simp
    with r have ex: "last r \<in> set r" "\<not> \<not> isWhiteSpace (last r)" by auto
    have len: "length (takeWhile (\<lambda>x. \<not> isWhiteSpace x) r) < length r"
      using ex by (rule takeWhile_stops)
    from m c obtain k where "n = Suc k"
      and "find (wordBoundary r) (rev [1 ..< Suc (length (takeWhile (\<lambda>x. \<not> isWhiteSpace x) r))]) = Some k"
      by (auto simp: s re_mention_def Let_def simp del: upt_Suc)
    then have "k \<in> set (rev [1 ..< Suc (length (takeWhile (\<lambda>x. \<not> isWhiteSpace x) r))])"
      by (blast dest: find_SomeD)
    then have "k \<le> length (takeWhile (\<lambda>x. \<not> isWhiteSpace x) r)"
      by (simp del: upt_Suc)
    with len \<open>n = Suc k\<close> show ?thesis by (simp add: s)
  qed
qed

lemma mention_spec_mention:
  assumes "\<forall>u. find (\<lambda>u. username u = tok) (client_users cl) = Some u \<longrightarrow>
             find (\<lambda>m. user_id (member_user m) = user_id u) (members g) \<noteq> None"
  shows "mention cl g (0x40 # tok) grp = Inr (spec_mention cl g tok)"
  using assms
  by (auto simp: mention_def spec_mention_def guildNickname_def Let_def split: option.splits)

text \<open>
  C2, as the code has it. In the text of an IRC message, take a \<open>@\<close> with no other \<open>@\<close>
  between it and the white space before it (or the start of the text). Its token is the
  run of code units after it that are not white space, cut after the last word character
  (letter, digit or underscore) of the run: what follows in the run (\<open>trail\<close>) stays where it
  is. The \<open>@\<close> and the token are replaced by the rule of the claim (\<open>spec_mention\<close>): the
  nickname first, then the username if the nickname of that user is unset or the token,
  else nothing changes. This is stated where no TypeError ends the call: a user found by
  the username is a member of the guild, and the text before and after is replaced without
  error.
\<close>

theorem mention_token:
  assumes before: "before = [] \<or> isWhiteSpace (last before)"
    and pre: "0x40 \<notin> set pre"
    and tok: "tok \<noteq> []" "\<forall>c\<in>set tok. \<not> isWhiteSpace c" "isWordChar (last tok)"
    and trail: "\<forall>c\<in>set trail. \<not> isWordChar c \<and> \<not> isWhiteSpace c"
    and post: "post = [] \<or> isWhiteSpace (hd post)"
    and member: "\<forall>u. find (\<lambda>u. username u = tok) (client_users cl) = Some u \<longrightarrow>
                   find (\<lambda>m. user_id (member_user m) = user_id u) (members g) \<noteq> None"
    and rest: "withMentions cl g before = Inr before'" "withMentions cl g post = Inr post'"
  shows "withMentions cl g (before @ pre @ 0x40 # tok @ trail @ post) =
           Inr (before' @ pre @ spec_mention cl g tok @ trail @ post')"
proof -
  let ?f = "mention cl g"
  let ?R = "replace_regex re_mention ?f"
  from rest have rb: "?R before = Inr before'" and rp: "?R post = Inr post'"
    by (simp_all add: withMentions_def)
  have D: "?R (trail @ post) = Inr (trail @ post')"
  proof -
    have "\<And>i. i < length trail \<Longrightarrow> re_mention (drop i trail @ post) = None"
    proof -
      fix i assume i: "i < length trail"
      then have "drop i trail = trail ! i # drop (Suc i) trail"
        by (simp add: Cons_nth_drop_Suc)
      moreover have "\<forall>c\<in>set (drop (Suc i) trail). \<not> isWordChar c \<and> \<not> isWhiteSpace c"
        using trail by (auto dest: in_set_dropD)
      ultimately show "re_mention (drop i trail @ post) = None"
        using re_mention_no_word [OF _ post, of "drop (Suc i) trail" "trail ! i"] by simp
    qed
    from replace_regex_skip [of trail re_mention post ?f, OF this] show ?thesis
      by (simp only: rp sum.case)
  qed
  have C: "?R (0x40 # tok @ trail @ post) = Inr (spec_mention cl g tok @ trail @ post')"
    using re_mention_token [OF tok trail post] mention_spec_mention [OF member] D
    by simp
  have B: "?R (pre @ 0x40 # tok @ trail @ post) = Inr (pre @ spec_mention cl g tok @ trail @ post')"
  proof -
    have "\<And>i. i < length pre \<Longrightarrow> re_mention (drop i pre @ 0x40 # tok @ trail @ post) = None"
    proof -
      fix i assume i: "i < length pre"
      then have "drop i pre = pre ! i # drop (Suc i) pre"
        by (simp add: Cons_nth_drop_Suc)
      moreover have "pre ! i \<noteq> 0x40"
        using pre i by (metis nth_mem)
      ultimately show "re_mention (drop i pre @ 0x40 # tok @ trail @ post) = None"
        by (simp add: re_mention_other)
    qed
    from replace_regex_skip [of pre re_mention "0x40 # tok @ trail @ post" ?f, OF this] show ?thesis
      by (simp only: C sum.case)
  qed
  have A: "?R (before @ pre @ 0x40 # tok @ trail @ post) =
           (case ?R before of
              Inl e \<Rightarrow> Inl e
            | Inr a \<Rightarrow> (case ?R (pre @ 0x40 # tok @ trail @ post) of Inl e \<Rightarrow> Inl e | Inr b \<Rightarrow> Inr (a @ b)))"
  proof (cases "before = []")
    case True
    then show ?thesis using rb B by simp
  next
    case False
    with before have ws: "isWhiteSpace (last before)" by simp
    show ?thesis
    proof (rule replace_regex_append)
      fix i assume "i < length before"
      then have "drop i before \<noteq> []" and "isWhiteSpace (last (drop i before))"
        using ws by simp_all
      then show "re_mention (drop i before @ pre @ 0x40 # tok @ trail @ post) = re_mention (drop i before)"
        by (rule re_mention_local(1))
    next
      fix i n gr assume i: "i < length before" and m: "re_mention (drop i before) = Some (n, gr)"
      from i have "drop i before \<noteq> []" and "isWhiteSpace (last (drop i before))"
        using ws by simp_all
      from re_mention_local(2) [OF this m] i show "0 < n \<and> i + n \<le> length before"
        by auto
    qed
  qed
  show ?thesis
    unfolding withMentions_def A by (simp only: rb B sum.case)
qed

theorem mention_token_witness:
  "withMentions example_client example_guild (utf16 ''Hello, @testuser! bye'') = Inr (utf16 ''Hello, <@123>! bye'')"
proof -
  have t: "utf16 ''Hello, @testuser! bye'' = utf16 ''Hello, '' @ [] @ 0x40 # utf16 ''testuser'' @ utf16 ''!'' @ utf16 '' bye''"
    by (simp add: utf16_def)
  have before: "utf16 ''Hello, '' = [] \<or> isWhiteSpace (last (utf16 ''Hello, ''))"
    by (simp add: utf16_def isWhiteSpace_def)
  have pre: "0x40 \<notin> set ([] :: jsstring)"
    by simp
  have tok: "utf16 ''testuser'' \<noteq> []" "\<forall>c\<in>set (utf16 ''testuser''). \<not> isWhiteSpace c"
    "isWordChar (last (utf16 ''testuser''))"
    by (simp_all add: utf16_def isWhiteSpace_def isWordChar_def)
  have trail: "\<forall>c\<in>set (utf16 ''!''). \<not> isWordChar c \<and> \<not> isWhiteSpace c"
    by (simp add: utf16_def isWhiteSpace_def isWordChar_def isDigit_def)
  have post: "utf16 '' bye'' = [] \<or> isWhiteSpace (hd (utf16 '' bye''))"
    by (simp add: utf16_def isWhiteSpace_def)
  have member: "\<forall>u. find (\<lambda>u. username u = utf16 ''testuser'') (client_users example_client) = Some u \<longrightarrow>
                   find (\<lambda>m. user_id (member_user m) = user_id u) (members example_guild) \<noteq> None"
    by (auto simp: eval_defs)
  have rest: "withMentions example_client example_guild (utf16 ''Hello, '') = Inr (utf16 ''Hello, '')"
    "withMentions example_client example_guild (utf16 '' bye'') = Inr (utf16 '' bye'')"
    by (simp_all add: eval_defs)
  have r: "spec_mention example_client example_guild (utf16 ''testuser'') = utf16 ''<@123>''"
    by (simp add: spec_mention_def guildNickname_def eval_defs)
  from mention_token [OF before pre tok trail post member rest]
  show ?thesis
    unfolding t r by (simp add: utf16_def)
qed

text \<open>With the whole run as the token, \<^verbatim>\<open>testuser!\<close> would name no user and stay; the code
  replaces \<^verbatim>\<open>@testuser\<close> and keeps the \<^verbatim>\<open>!\<close>, as the test of the repository expects.\<close>

theorem mention_token_counterexample:
  "withMentions example_client example_guild (utf16 ''Hello, @testuser!'') = Inr (utf16 ''Hello, <@123>!'')
   \<and> spec_withMentions example_client example_guild (utf16 ''Hello, @testuser!'') = Inr (utf16 ''Hello, @testuser!'')"
  by (simp add: spec_withMentions_def spec_re_mention_def spec_mention_def guildNickname_def eval_defs)

end
